theory Spec2Isabelle
  imports Complex_Main "HOL-Library.Word"
begin

section \<open>The firmware (PumpController sketch): data model\<close>

text \<open>
  The sketch targets the Arduino Uno (ATmega328P, avr-gcc): \<open>int\<close> is a 16-bit two's
  complement integer and \<open>unsigned long\<close> a 32-bit unsigned one. Both are words here, so
  that \<open>+\<close>, \<open>-\<close> and \<open>*\<close> wrap as the compiled code does; \<open>sint\<close> reads an \<open>int\<close>.
  On this target \<open>float\<close> and \<open>double\<close> are both the 32-bit IEEE 754 format
  (binary32); it is modelled below with its rounding, its two zeros, its infinities and
  NaN.
\<close>

type_synonym c_int = "16 word"
type_synonym c_ulong = "32 word"

section \<open>The 32-bit floating-point numbers\<close>

text \<open>
  A finite binary32 number is \<open>m * 2 ^ q\<close> with \<open>|m| < 2 ^ 24\<close> and \<open>- 149 \<le> q \<le> 104\<close>.
  \<open>round_mag x\<close> rounds a magnitude \<open>x \<ge> 0\<close> to the nearest such number, ties to the even
  \<open>m\<close>: \<open>q\<close> is the least exponent of the format with \<open>x < 2 ^ (q + 24)\<close>, so that
  small magnitudes are rounded on the subnormal grid \<open>2 ^ - 149\<close>; a magnitude of
  \<open>2 ^ 128\<close> or more has no such exponent and is left as it is. A rounded magnitude of
  \<open>2 ^ 128\<close> or more stands for an overflow.
\<close>

definition pow2 :: "int \<Rightarrow> real" where
  "pow2 k = (if 0 \<le> k then 2 ^ nat k else 1 / 2 ^ nat (- k))"

definition rne :: "real \<Rightarrow> int" where
  "rne y =
     (let f = \<lfloor>y\<rfloor>; d = y - of_int f
      in if d < 1 / 2 then f else if 1 / 2 < d then f + 1 else if even f then f else f + 1)"

definition ulp_exponents :: "int list" where
  "ulp_exponents = [- 149 .. 104]"

definition round_mag :: "real \<Rightarrow> real" where
  "round_mag x =
     (case List.find (\<lambda>q. x < pow2 (q + 24)) ulp_exponents of
        None \<Rightarrow> x
      | Some q \<Rightarrow> of_int (rne (x / pow2 q)) * pow2 q)"

text \<open>
  A value of type \<open>float\<close>: a finite number (\<open>Val 0\<close> is the positive zero), the negative
  zero, an infinity, or NaN. \<open>frnd neg x\<close> is the result of an operation whose exact
  result has the sign \<open>neg\<close> and the magnitude \<open>x\<close>.
\<close>

datatype cfloat = Val real | NegZero | PInf | NInf | NotANumber

definition signed_inf :: "bool \<Rightarrow> cfloat" where
  "signed_inf neg = (if neg then NInf else PInf)"

definition signed_zero :: "bool \<Rightarrow> cfloat" where
  "signed_zero neg = (if neg then NegZero else Val 0)"

definition frnd :: "bool \<Rightarrow> real \<Rightarrow> cfloat" where
  "frnd neg x =
     (let m = round_mag x
      in if pow2 128 \<le> m then signed_inf neg
         else if m = 0 then signed_zero neg
         else Val (if neg then - m else m))"

definition fsign :: "cfloat \<Rightarrow> bool" where
  "fsign a = (case a of Val x \<Rightarrow> x < 0 | NegZero \<Rightarrow> True | PInf \<Rightarrow> False | NInf \<Rightarrow> True
              | NotANumber \<Rightarrow> False)"

definition fmag :: "cfloat \<Rightarrow> real" where
  "fmag a = (case a of Val x \<Rightarrow> \<bar>x\<bar> | _ \<Rightarrow> 0)"

definition is_inf :: "cfloat \<Rightarrow> bool" where
  "is_inf a = (a = PInf \<or> a = NInf)"

definition is_zero :: "cfloat \<Rightarrow> bool" where
  "is_zero a = (a = Val 0 \<or> a = NegZero)"

text \<open>Multiplication, division and negation, with the special cases of IEEE 754.\<close>

definition fmul :: "cfloat \<Rightarrow> cfloat \<Rightarrow> cfloat" where
  "fmul a b =
     (let neg = (fsign a \<noteq> fsign b)
      in if a = NotANumber \<or> b = NotANumber then NotANumber
         else if is_inf a \<or> is_inf b then
           (if is_zero a \<or> is_zero b then NotANumber else signed_inf neg)
         else frnd neg (fmag a * fmag b))"

definition fdiv :: "cfloat \<Rightarrow> cfloat \<Rightarrow> cfloat" where
  "fdiv a b =
     (let neg = (fsign a \<noteq> fsign b)
      in if a = NotANumber \<or> b = NotANumber then NotANumber
         else if is_inf a then (if is_inf b then NotANumber else signed_inf neg)
         else if is_inf b then signed_zero neg
         else if is_zero b then (if is_zero a then NotANumber else signed_inf neg)
         else frnd neg (fmag a / fmag b))"

definition fneg :: "cfloat \<Rightarrow> cfloat" where
  "fneg a = (case a of Val x \<Rightarrow> if x = 0 then NegZero else Val (- x) | NegZero \<Rightarrow> Val 0
             | PInf \<Rightarrow> NInf | NInf \<Rightarrow> PInf | NotANumber \<Rightarrow> NotANumber)"

text \<open>
  The comparisons \<open><\<close>, \<open>==\<close> and \<open><=\<close> of C: every comparison with NaN is false, and
  the two zeros are equal.
\<close>

definition flevel :: "cfloat \<Rightarrow> int" where
  "flevel a = (case a of NInf \<Rightarrow> - 1 | PInf \<Rightarrow> 1 | _ \<Rightarrow> 0)"

definition fval :: "cfloat \<Rightarrow> real" where
  "fval a = (case a of Val x \<Rightarrow> x | _ \<Rightarrow> 0)"

definition fless :: "cfloat \<Rightarrow> cfloat \<Rightarrow> bool" where
  "fless a b =
     (a \<noteq> NotANumber \<and> b \<noteq> NotANumber \<and>
      (flevel a < flevel b \<or> (flevel a = flevel b \<and> fval a < fval b)))"

definition feq :: "cfloat \<Rightarrow> cfloat \<Rightarrow> bool" where
  "feq a b = (a \<noteq> NotANumber \<and> b \<noteq> NotANumber \<and> flevel a = flevel b \<and> fval a = fval b)"

definition fle :: "cfloat \<Rightarrow> cfloat \<Rightarrow> bool" where
  "fle a b = (fless a b \<or> feq a b)"

text \<open>Arduino's macro \<open>abs(x)\<close> is \<open>((x) > 0 ? (x) : -(x))\<close>.\<close>

definition abs_macro :: "cfloat \<Rightarrow> cfloat" where
  "abs_macro x = (if fless (Val 0) x then x else fneg x)"

text \<open>The conversion of an \<open>unsigned long\<close> to \<open>float\<close>.\<close>

definition of_ulong :: "32 word \<Rightarrow> cfloat" where
  "of_ulong w = frnd False (real (unat w))"

section \<open>The firmware: constants and state\<close>


definition X_STEP_PIN :: nat where "X_STEP_PIN = 2"
definition X_DIR_PIN :: nat where "X_DIR_PIN = 5"
definition X_ENABLE_PIN :: nat where "X_ENABLE_PIN = 8"
definition Y_STEP_PIN :: nat where "Y_STEP_PIN = 3"
definition Y_DIR_PIN :: nat where "Y_DIR_PIN = 6"
definition Y_ENABLE_PIN :: nat where "Y_ENABLE_PIN = 8"
definition Z_STEP_PIN :: nat where "Z_STEP_PIN = 4"
definition Z_DIR_PIN :: nat where "Z_DIR_PIN = 7"
definition Z_ENABLE_PIN :: nat where "Z_ENABLE_PIN = 8"
definition A_STEP_PIN :: nat where "A_STEP_PIN = 12"
definition A_DIR_PIN :: nat where "A_DIR_PIN = 13"
definition A_ENABLE_PIN :: nat where "A_ENABLE_PIN = 8"

definition STEPS_PER_REV :: cfloat where "STEPS_PER_REV = Val 200"
definition MICROSTEPPING :: cfloat where "MICROSTEPPING = Val 16"
definition EFFECTIVE_STEPS_PER_REV :: cfloat where
  "EFFECTIVE_STEPS_PER_REV = fmul STEPS_PER_REV MICROSTEPPING"

text \<open>Pin levels: \<open>HIGH\<close> is \<open>True\<close>. The DRV8825 enable input is active low.\<close>

abbreviation (input) HIGH :: bool where "HIGH \<equiv> True"
abbreviation (input) LOW :: bool where "LOW \<equiv> False"

record Pump =
  stepPin :: nat
  dirPin :: nat
  enablePin :: nat
  isRunning :: bool
  rpm :: cfloat
  duration :: c_int
  continuous :: bool
  startTime :: c_ulong
  intervalMicros :: cfloat
  lastStepTime :: c_ulong
  name :: char

text \<open>
  What the sketch sends to the serial port is kept as the list of the calls it makes:
  \<open>Serial.print(x)\<close> and \<open>Serial.println(x)\<close>, with the argument as passed
  (\<open>Flt r d\<close> is \<open>Serial.print(r, d)\<close>). A response line is a \<open>Println\<close>.
\<close>

datatype serial_arg = Str string | Chr char | Num int | Flt cfloat nat
datatype serial_call = Print serial_arg | Println serial_arg

text \<open>
  The state of the device: the global array \<open>pumps[4]\<close> (indices 0 to 3; a function, the
  code never indexes it elsewhere), the level of every output pin, the sequence of
  \<open>digitalWrite\<close> calls made so far (pin, level), and the serial output.
\<close>

record state =
  pumps :: "nat \<Rightarrow> Pump"
  pins :: "nat \<Rightarrow> bool"
  gpio :: "(nat \<times> bool) list"
  serial :: "serial_call list"

text \<open>The readings of \<open>millis()\<close> and \<open>micros()\<close> a function takes are its inputs.\<close>

record clock =
  millis :: c_ulong
  micros :: c_ulong

definition mkPump :: "nat \<Rightarrow> nat \<Rightarrow> nat \<Rightarrow> char \<Rightarrow> Pump" where
  "mkPump sp dp ep c =
     \<lparr>stepPin = sp, dirPin = dp, enablePin = ep, isRunning = False, rpm = Val 0,
      duration = 0, continuous = False, startTime = 0, intervalMicros = Val 0,
      lastStepTime = 0, name = c\<rparr>"

definition pumps_init :: "nat \<Rightarrow> Pump" where
  "pumps_init i =
     (if i = 0 then mkPump X_STEP_PIN X_DIR_PIN X_ENABLE_PIN (CHR ''X'')
      else if i = 1 then mkPump Y_STEP_PIN Y_DIR_PIN Y_ENABLE_PIN (CHR ''Y'')
      else if i = 2 then mkPump Z_STEP_PIN Z_DIR_PIN Z_ENABLE_PIN (CHR ''Z'')
      else mkPump A_STEP_PIN A_DIR_PIN A_ENABLE_PIN (CHR ''A''))"

definition power_on :: state where
  "power_on = \<lparr>pumps = pumps_init, pins = (\<lambda>_. LOW), gpio = [], serial = []\<rparr>"

section \<open>Output primitives\<close>

definition digitalWrite :: "nat \<Rightarrow> bool \<Rightarrow> state \<Rightarrow> state" where
  "digitalWrite pin v s = s\<lparr>pins := (pins s)(pin := v), gpio := gpio s @ [(pin, v)]\<rparr>"

definition digitalRead :: "nat \<Rightarrow> state \<Rightarrow> bool" where
  "digitalRead pin s = pins s pin"

definition Serial_print :: "serial_arg \<Rightarrow> state \<Rightarrow> state" where
  "Serial_print a s = s\<lparr>serial := serial s @ [Print a]\<rparr>"

definition Serial_println :: "serial_arg \<Rightarrow> state \<Rightarrow> state" where
  "Serial_println a s = s\<lparr>serial := serial s @ [Println a]\<rparr>"

text \<open>
  The four-iteration loops \<open>for (int i = 0; i < 4; i++)\<close> run over this list.
  In \<open>setup()\<close>, \<open>Serial.begin\<close> and \<open>pinMode\<close> change nothing that the state keeps;
  the pins are taken to be low before it.
\<close>

definition indices :: "nat list" where
  "indices = [0, 1, 2, 3]"

definition setup_sketch :: "state \<Rightarrow> state" where
  "setup_sketch s =
     Serial_println (Str ''Arduino Pump Controller Ready (Direct Pulse Mode)'')
       (fold (\<lambda>i s. digitalWrite (stepPin (pumps s i)) LOW
                      (digitalWrite (dirPin (pumps s i)) LOW
                        (digitalWrite (enablePin (pumps s i)) HIGH s)))
             indices s)"

section \<open>Channel activation and deactivation\<close>

definition stopPump :: "nat \<Rightarrow> state \<Rightarrow> state" where
  "stopPump pumpIndex s =
     (let pump = pumps s pumpIndex in
      if isRunning pump then
        (let s1 = s\<lparr>pumps := (pumps s)(pumpIndex := pump\<lparr>isRunning := False\<rparr>)\<rparr>;
             s2 = digitalWrite (enablePin pump) HIGH s1;
             s3 = Serial_print (Str ''Stopped pump '') s2
         in Serial_println (Chr (name pump)) s3)
      else s)"

text \<open>
  The interval that \<open>startPump\<close> computes from the magnitude of the rpm:
  \<open>stepsPerSec = (rpm / 60.0) * EFFECTIVE_STEPS_PER_REV\<close>, then
  \<open>(1.0 / stepsPerSec) * 1e6\<close>, every operation rounded to binary32.
\<close>

definition stepInterval :: "cfloat \<Rightarrow> cfloat" where
  "stepInterval r =
     (let stepsPerSec = fmul (fdiv r (Val 60)) EFFECTIVE_STEPS_PER_REV
      in fmul (fdiv (Val 1) stepsPerSec) (Val 1000000))"

definition startPump :: "nat \<Rightarrow> cfloat \<Rightarrow> c_int \<Rightarrow> bool \<Rightarrow> clock \<Rightarrow> state \<Rightarrow> state" where
  "startPump pumpIndex r d c clk s =
     (let s1 = stopPump pumpIndex s;
          s2 = digitalWrite (dirPin (pumps s1 pumpIndex))
                 (if fless (Val 0) r then HIGH else LOW) s1;
          r' = abs_macro r;
          pump = (pumps s2 pumpIndex)
                   \<lparr>intervalMicros := stepInterval r', rpm := r', duration := d,
                    continuous := c, isRunning := True, startTime := millis clk,
                    lastStepTime := micros clk\<rparr>;
          s3 = s2\<lparr>pumps := (pumps s2)(pumpIndex := pump)\<rparr>;
          s4 = digitalWrite (enablePin pump) LOW s3;
          s5 = Serial_print (Str ''Started pump '') s4;
          s6 = Serial_print (Chr (name pump)) s5;
          s7 = Serial_print (Str '' @ '') s6;
          s8 = Serial_print (Flt r' 2) s7;
          s9 = Serial_print (Str '' RPM '') s8
      in Serial_println
           (Str (if digitalRead (dirPin pump) s9 then ''(Forward)'' else ''(Reverse)'')) s9)"

section \<open>The pulse scheduler\<close>

text \<open>
  One iteration of the loop body of \<open>updatePumps\<close>. The auto-stop threshold is
  \<open>(unsigned long)(pump->duration * 1000)\<close>: the product is an \<open>int\<close> (16 bits), and
  the conversion to \<open>unsigned long\<close> extends its sign. The elapsed times are unsigned
  32-bit differences; the elapsed microseconds are converted to \<open>float\<close> for the
  comparison with the interval. \<open>delayMicroseconds(2)\<close> between the two writes of a
  pulse changes no state.
\<close>

definition durationMillis :: "Pump \<Rightarrow> c_ulong" where
  "durationMillis pump = scast (duration pump * 1000)"

definition updatePump :: "clock \<Rightarrow> nat \<Rightarrow> state \<Rightarrow> state" where
  "updatePump clk i s =
     (let pump = pumps s i in
      if \<not> isRunning pump then s
      else if \<not> continuous pump \<and> millis clk - startTime pump \<ge> durationMillis pump
        then stopPump i s
      else if fle (intervalMicros pump) (of_ulong (micros clk - lastStepTime pump)) then
        (let s1 = digitalWrite (stepPin pump) HIGH s;
             s2 = digitalWrite (stepPin pump) LOW s1
         in s2\<lparr>pumps := (pumps s2)(i := (pumps s2 i)\<lparr>lastStepTime := micros clk\<rparr>)\<rparr>)
      else s)"

definition updatePumps :: "clock \<Rightarrow> state \<Rightarrow> state" where
  "updatePumps clk s = fold (updatePump clk) indices s"

section \<open>The Arduino \<open>String\<close> operations the sketch uses\<close>

text \<open>
  These are library functions (the Arduino core's \<open>String\<close> class over avr-libc), written
  out as their documentation describes them: \<open>charAt\<close> out of range gives the NUL
  character, \<open>indexOf\<close> gives no index (\<open>-1\<close>) when the character is absent,
  \<open>substring(left, right)\<close> swaps its bounds when \<open>left > right\<close> and clips them to
  the length, \<open>trim\<close> removes leading and trailing white space.
\<close>

definition isspace :: "char \<Rightarrow> bool" where
  "isspace c = (c = CHR '' '' \<or> c = CHR 0x09 \<or> c = CHR 0x0A \<or> c = CHR 0x0B \<or> c = CHR 0x0C
                \<or> c = CHR 0x0D)"

definition isdigit :: "char \<Rightarrow> bool" where
  "isdigit c = (48 \<le> (of_char c :: nat) \<and> (of_char c :: nat) \<le> 57)"

definition digit_val :: "char \<Rightarrow> int" where
  "digit_val c = of_char c - 48"

definition trim :: "string \<Rightarrow> string" where
  "trim s = rev (dropWhile isspace (rev (dropWhile isspace s)))"

definition startsWith :: "string \<Rightarrow> string \<Rightarrow> bool" where
  "startsWith s p = (take (length p) s = p)"

definition charAt :: "string \<Rightarrow> nat \<Rightarrow> char" where
  "charAt s i = (if i < length s then s ! i else CHR 0x00)"

fun indexOf :: "char \<Rightarrow> string \<Rightarrow> nat option" where
  "indexOf ch [] = None"
| "indexOf ch (c # cs) =
     (if c = ch then Some 0 else (case indexOf ch cs of None \<Rightarrow> None | Some n \<Rightarrow> Some (Suc n)))"

definition substring :: "string \<Rightarrow> nat \<Rightarrow> nat \<Rightarrow> string" where
  "substring s left right =
     (let l = min left right; r = max left right
      in if l \<ge> length s then [] else take (min r (length s) - l) (drop l s))"

text \<open>
  \<open>toInt\<close> is \<open>atol\<close>: white space, an optional sign, then decimal digits up to the
  first other character; no digits give 0. The sketch stores the \<open>long\<close> in an \<open>int\<close>,
  which keeps the low 16 bits.
\<close>

fun atol_digits :: "string \<Rightarrow> int \<Rightarrow> int" where
  "atol_digits [] acc = acc"
| "atol_digits (c # cs) acc =
     (if isdigit c then atol_digits cs (acc * 10 + digit_val c) else acc)"

definition atol :: "string \<Rightarrow> int" where
  "atol s =
     (case dropWhile isspace s of
        [] \<Rightarrow> 0
      | c # cs \<Rightarrow>
          if c = CHR ''-'' then - atol_digits cs 0
          else if c = CHR ''+'' then atol_digits cs 0
          else atol_digits (c # cs) 0)"

definition toInt :: "string \<Rightarrow> c_int" where
  "toInt s = word_of_int (atol s)"

text \<open>
  \<open>toFloat\<close> is avr-libc's \<open>atof\<close>: white space, an optional sign, then \<open>INF\<close> (an
  infinity) or \<open>NAN\<close> (NaN) in either case of letters, or digits with an optional
  fraction and an optional exponent; no digits give 0, and the sign applies only when
  there are digits. The decimal is rounded here once, to the nearest \<open>float\<close>; the
  library rounds in several steps and may differ from this in the last place for a
  literal with many digits or an exponent.
\<close>

definition skip_sign :: "string \<Rightarrow> string" where
  "skip_sign s =
     (case s of [] \<Rightarrow> [] | c # cs \<Rightarrow> if c = CHR ''-'' \<or> c = CHR ''+'' then cs else c # cs)"

definition is_negative :: "string \<Rightarrow> bool" where
  "is_negative s = (case s of [] \<Rightarrow> False | c # cs \<Rightarrow> c = CHR ''-'')"

definition fraction_digits :: "string \<Rightarrow> string" where
  "fraction_digits s =
     (case s of [] \<Rightarrow> [] | c # cs \<Rightarrow> if c = CHR ''.'' then takeWhile isdigit cs else [])"

definition after_fraction :: "string \<Rightarrow> string" where
  "after_fraction s =
     (case s of [] \<Rightarrow> [] | c # cs \<Rightarrow> if c = CHR ''.'' then dropWhile isdigit cs else c # cs)"

definition exponent :: "string \<Rightarrow> int" where
  "exponent s =
     (case s of
        [] \<Rightarrow> 0
      | c # cs \<Rightarrow>
          if c = CHR ''e'' \<or> c = CHR ''E'' then
            (if takeWhile isdigit (skip_sign cs) = [] then 0
             else if is_negative cs then - atol_digits (skip_sign cs) 0
             else atol_digits (skip_sign cs) 0)
          else 0)"

definition scale10 :: "real \<Rightarrow> int \<Rightarrow> real" where
  "scale10 x e = (if e \<ge> 0 then x * 10 ^ nat e else x / 10 ^ nat (- e))"

definition is_letter :: "char \<Rightarrow> char \<Rightarrow> char \<Rightarrow> bool" where
  "is_letter c lower upper = (c = lower \<or> c = upper)"

definition spells_inf :: "string \<Rightarrow> bool" where
  "spells_inf s =
     (case s of
        a # b # c # _ \<Rightarrow>
          is_letter a (CHR ''i'') (CHR ''I'') \<and> is_letter b (CHR ''n'') (CHR ''N'') \<and>
          is_letter c (CHR ''f'') (CHR ''F'')
      | _ \<Rightarrow> False)"

definition spells_nan :: "string \<Rightarrow> bool" where
  "spells_nan s =
     (case s of
        a # b # c # _ \<Rightarrow>
          is_letter a (CHR ''n'') (CHR ''N'') \<and> is_letter b (CHR ''a'') (CHR ''A'') \<and>
          is_letter c (CHR ''n'') (CHR ''N'')
      | _ \<Rightarrow> False)"

definition atof :: "string \<Rightarrow> cfloat" where
  "atof s =
     (let s1 = dropWhile isspace s;
          s2 = skip_sign s1;
          ip = takeWhile isdigit s2;
          s3 = dropWhile isdigit s2;
          fp = fraction_digits s3;
          s4 = after_fraction s3;
          mant = real_of_int (atol_digits (ip @ fp) 0) / 10 ^ length fp;
          v = scale10 mant (exponent s4)
      in if spells_inf s2 then signed_inf (is_negative s1)
         else if spells_nan s2 then NotANumber
         else if ip = [] \<and> fp = [] then Val 0
         else frnd (is_negative s1) v)"

definition toFloat :: "string \<Rightarrow> cfloat" where
  "toFloat s = atof s"

section \<open>The command protocol\<close>

text \<open>
  The tokenizer loop of \<open>handleStartCommand\<close>: \<open>i\<close> runs from 0 to
  \<open>command.length()\<close> inclusive; at the end of the line and at every comma the field
  since \<open>startIndex\<close> is stored (\<open>storePart\<close>: only while fewer than five fields are
  stored). The list \<open>parts\<close> holds \<open>parts[0..partIndex-1]\<close>, so \<open>partIndex\<close> is its
  length.
\<close>

definition storePart :: "string list \<Rightarrow> string \<Rightarrow> string list" where
  "storePart parts f = (if length parts < 5 then parts @ [f] else parts)"

function splitLoop :: "string \<Rightarrow> nat \<Rightarrow> nat \<Rightarrow> string list \<Rightarrow> string list" where
  "splitLoop command i startIndex parts =
     (if i \<le> length command then
        (if i = length command \<or> charAt command i = CHR '','' then
           splitLoop command (i + 1) (i + 1) (storePart parts (substring command startIndex i))
         else splitLoop command (i + 1) startIndex parts)
      else parts)"
  by pat_completeness auto
termination
  by (relation "measure (\<lambda>(command, i, startIndex, parts). Suc (length command) - i)") auto

definition findPumpIndex :: "char \<Rightarrow> state \<Rightarrow> nat option" where
  "findPumpIndex pumpChar s = List.find (\<lambda>i. name (pumps s i) = pumpChar) indices"

definition handleStartCommand :: "string \<Rightarrow> clock \<Rightarrow> state \<Rightarrow> state" where
  "handleStartCommand command clk s =
     (let parts = splitLoop command 0 0 [] in
      if length parts \<noteq> 5 then Serial_println (Str ''ERROR: Invalid START command format'') s
      else
        (let pumpChar = charAt (parts ! 1) 0;
             r = toFloat (parts ! 2);
             d = toInt (parts ! 3);
             c = toInt (parts ! 4)
         in case findPumpIndex pumpChar s of
              None \<Rightarrow> Serial_println (Str ''ERROR: Invalid pump identifier'') s
            | Some pumpIndex \<Rightarrow>
                if feq r (Val 0) \<or> fless (Val 3000) (abs_macro r) then
                  Serial_println (Str ''ERROR: RPM must be between -3000 and 3000'') s
                else if c = 0 \<and> sint d \<le> 0 then
                  Serial_println (Str ''ERROR: Duration must be positive'') s
                else Serial_println (Str ''OK'') (startPump pumpIndex r d (c = 1) clk s)))"

definition handleStopCommand :: "string \<Rightarrow> state \<Rightarrow> state" where
  "handleStopCommand command s =
     (case indexOf (CHR '','') command of
        None \<Rightarrow> Serial_println (Str ''ERROR: Invalid STOP command'') s
      | Some commaIndex \<Rightarrow>
          if commaIndex + 1 = length command then
            Serial_println (Str ''ERROR: Invalid STOP command'') s
          else
            (case findPumpIndex (charAt command (commaIndex + 1)) s of
               None \<Rightarrow> Serial_println (Str ''ERROR: Invalid pump'') s
             | Some pumpIndex \<Rightarrow> Serial_println (Str ''OK'') (stopPump pumpIndex s)))"

definition handleEmergencyStop :: "state \<Rightarrow> state" where
  "handleEmergencyStop s = Serial_println (Str ''OK'') (fold stopPump indices s)"

text \<open>\<open>pumps[i].isRunning ? 1 : 0\<close>, as \<open>handleStatusRequest\<close> prints it.\<close>

definition running_flag :: "Pump \<Rightarrow> int" where
  "running_flag pump = (if isRunning pump then 1 else 0)"

definition handleStatusRequest :: "state \<Rightarrow> state" where
  "handleStatusRequest s =
     (let s1 = Serial_print (Str [CHR ''{'', CHR 0x22, CHR ''X'', CHR 0x22, CHR '':'']) s;
          s2 = Serial_print (Num (running_flag (pumps s1 0))) s1;
          s3 = Serial_print (Str [CHR '','', CHR 0x22, CHR ''Y'', CHR 0x22, CHR '':'']) s2;
          s4 = Serial_print (Num (running_flag (pumps s3 1))) s3;
          s5 = Serial_print (Str [CHR '','', CHR 0x22, CHR ''Z'', CHR 0x22, CHR '':'']) s4;
          s6 = Serial_print (Num (running_flag (pumps s5 2))) s5;
          s7 = Serial_print (Str [CHR '','', CHR 0x22, CHR ''A'', CHR 0x22, CHR '':'']) s6;
          s8 = Serial_print (Num (running_flag (pumps s7 3))) s7
      in Serial_println (Str ''}'') s8)"

definition processCommand :: "string \<Rightarrow> clock \<Rightarrow> state \<Rightarrow> state" where
  "processCommand cmd clk s =
     (let command = trim cmd in
      if startsWith command ''START'' then handleStartCommand command clk s
      else if startsWith command ''STOP'' then handleStopCommand command s
      else if command = ''EMERGENCY'' then handleEmergencyStop s
      else if command = ''STATUS'' then handleStatusRequest s
      else Serial_println (Str ''ERROR: Unknown command'') s)"

section \<open>Reachable states of the device\<close>

text \<open>
  After \<open>setup()\<close>, \<open>loop()\<close> processes a completed command line, if there is one, and
  then runs the scheduler, for ever. The reachable states are those that any sequence of
  command lines and scheduler iterations produces, under any clock readings. The
  predicate \<open>ok\<close> restricts the command lines that are sent.
\<close>

inductive reachable_with :: "(string \<Rightarrow> bool) \<Rightarrow> state \<Rightarrow> bool"
  for ok :: "string \<Rightarrow> bool" where
  boot: "reachable_with ok (setup_sketch power_on)"
| command: "reachable_with ok s \<Longrightarrow> ok cmd \<Longrightarrow> reachable_with ok (processCommand cmd clk s)"
| schedule: "reachable_with ok s \<Longrightarrow> reachable_with ok (updatePumps clk s)"

definition reachable :: "state \<Rightarrow> bool" where
  "reachable s = reachable_with (\<lambda>cmd. True) s"

text \<open>
  A command line whose fifth field, if it is a START line that has one, reads as 0 or 1:
  the two values the protocol gives the \<open>continuous\<close> field.
\<close>

definition continuous_is_flag :: "string \<Rightarrow> bool" where
  "continuous_is_flag cmd =
     (let parts = splitLoop (trim cmd) 0 0 []
      in if startsWith (trim cmd) ''START'' \<and> length parts = 5
         then toInt (parts ! 4) = 0 \<or> toInt (parts ! 4) = 1
         else True)"

text \<open>The enable output of a channel is asserted when its (active-low) pin is low.\<close>

definition enabled :: "state \<Rightarrow> nat \<Rightarrow> bool" where
  "enabled s i = (pins s (enablePin (pumps s i)) = LOW)"

text \<open>
  The static part of the channels: every channel keeps the pins and the name that the
  initialiser of \<open>pumps\<close> gives it. All four enable pins are pin 8.
\<close>

definition wired :: "state \<Rightarrow> bool" where
  "wired s =
     (\<forall>i. stepPin (pumps s i) = stepPin (pumps_init i) \<and>
          dirPin (pumps s i) = dirPin (pumps_init i) \<and>
          enablePin (pumps s i) = 8 \<and>
          name (pumps s i) = name (pumps_init i))"

text \<open>
  Two properties of a state that every step of the device keeps: the shared enable pin is
  low only while some channel is flagged running; and a channel is continuous, or has a
  positive duration, or was never started.
\<close>

definition enable_inv :: "state \<Rightarrow> bool" where
  "enable_inv s = (wired s \<and> (pins s 8 = LOW \<longrightarrow> (\<exists>i<4. isRunning (pumps s i))))"

definition duration_inv :: "state \<Rightarrow> bool" where
  "duration_inv s =
     (\<forall>i. continuous (pumps s i) \<or> 0 < sint (duration (pumps s i)) \<or>
          (\<not> isRunning (pumps s i) \<and> rpm (pumps s i) = Val 0 \<and> duration (pumps s i) = 0))"

section \<open>The comma-separated fields of a line, as the protocol describes them\<close>

text \<open>
  The protocol speaks of the comma-separated fields of a command line. This is the plain
  splitting of a line at every comma, to compare the tokenizer loop with.
\<close>

fun comma_fields :: "string \<Rightarrow> string list" where
  "comma_fields [] = [[]]"
| "comma_fields (c # cs) =
     (if c = CHR '','' then [] # comma_fields cs
      else (case comma_fields cs of [] \<Rightarrow> [[c]] | f # fs \<Rightarrow> (c # f) # fs))"

section \<open>The web front end (script.js): \<open>PumpController.startPump\<close>\<close>

text \<open>
  A JavaScript number is a real number (the double idealised), an infinity or NaN.
  \<open>parseFloat\<close> and \<open>parseInt\<close> are the language's own functions, written out for
  ASCII input: leading white space is skipped, the longest prefix that is a decimal
  literal (for \<open>parseInt\<close>: an integer, hexadecimal after \<open>0x\<close>) is read, and a string
  with no such prefix gives NaN.
\<close>

datatype jsnum = Finite real | Infinity | MinusInfinity | NaN

definition parseFloat :: "string \<Rightarrow> jsnum" where
  "parseFloat s =
     (let s1 = dropWhile isspace s;
          s2 = skip_sign s1;
          ip = takeWhile isdigit s2;
          s3 = dropWhile isdigit s2;
          fp = fraction_digits s3;
          s4 = after_fraction s3;
          mant = real_of_int (atol_digits (ip @ fp) 0) / 10 ^ length fp;
          v = scale10 mant (exponent s4)
      in if startsWith s2 ''Infinity'' then (if is_negative s1 then MinusInfinity else Infinity)
         else if ip = [] \<and> fp = [] then NaN
         else Finite (if is_negative s1 then - v else v))"

definition ishexdigit :: "char \<Rightarrow> bool" where
  "ishexdigit c =
     (isdigit c \<or> (65 \<le> (of_char c :: nat) \<and> (of_char c :: nat) \<le> 70)
      \<or> (97 \<le> (of_char c :: nat) \<and> (of_char c :: nat) \<le> 102))"

definition hexdigit_val :: "char \<Rightarrow> int" where
  "hexdigit_val c =
     (if isdigit c then of_char c - 48
      else if (of_char c :: nat) \<le> 70 then of_char c - 55
      else of_char c - 87)"

fun hex_digits :: "string \<Rightarrow> int \<Rightarrow> int" where
  "hex_digits [] acc = acc"
| "hex_digits (c # cs) acc =
     (if ishexdigit c then hex_digits cs (acc * 16 + hexdigit_val c) else acc)"

definition parseInt :: "string \<Rightarrow> jsnum" where
  "parseInt s =
     (let s1 = dropWhile isspace s;
          s2 = skip_sign s1;
          hex = (startsWith s2 ''0x'' \<or> startsWith s2 ''0X'');
          ds = (if hex then takeWhile ishexdigit (drop 2 s2) else takeWhile isdigit s2);
          v = (if hex then hex_digits ds 0 else atol_digits ds 0)
      in if ds = [] then NaN
         else Finite (real_of_int (if is_negative s1 then - v else v)))"

text \<open>\<open>x || 0\<close> on a number: the falsy numbers are 0 and NaN.\<close>

definition or_zero :: "jsnum \<Rightarrow> jsnum" where
  "or_zero x = (case x of Finite r \<Rightarrow> Finite r | NaN \<Rightarrow> Finite 0 | y \<Rightarrow> y)"

definition isNaN :: "jsnum \<Rightarrow> bool" where
  "isNaN x = (x = NaN)"

record PumpState =
  ps_running :: bool
  ps_rpm :: jsnum
  ps_time :: jsnum
  ps_continuous :: bool

text \<open>
  The page as \<open>startPump\<close> reads it: the value of the pump's RPM and time inputs and the
  state of its checkbox (\<open>None\<close> when \<open>querySelector\<close> finds no such element), whether
  the elements \<open>updatePumpDisplay\<close> writes exist, and the message text the engine gives
  a \<open>TypeError\<close>.
\<close>

record page =
  rpm_input :: "string \<Rightarrow> string option"
  time_input :: "string \<Rightarrow> string option"
  continuous_checkbox :: "string \<Rightarrow> bool option"
  display_elements :: "string \<Rightarrow> bool"
  type_error_message :: string

datatype request_body = StartBody string jsnum jsnum int

record http_request =
  url :: string
  http_method :: string
  body :: request_body

text \<open>
  What \<open>await fetch(...)\<close> followed by \<open>response.json()\<close> gives: a rejection with an
  error message, or a parsed result with its \<open>success\<close> and \<open>message\<close>.
\<close>

datatype fetch_result = Rejected string | Result bool string

text \<open>
  The controller object and what it has done: its \<open>pumpStates\<close>, the requests sent with
  \<open>fetch\<close>, the notifications shown (message, type), the display updates made
  (pump, running) and the lines logged with \<open>console.error\<close>.
\<close>

record controller =
  pumpStates :: "string \<Rightarrow> PumpState option"
  requests :: "http_request list"
  notifications :: "(string \<times> string) list"
  display_updates :: "(string \<times> bool) list"
  console_errors :: "string list"

datatype js_error = TypeError

definition apiBaseUrl :: string where
  "apiBaseUrl = ''http://localhost:5000/api''"

definition showNotification :: "string \<Rightarrow> string \<Rightarrow> controller \<Rightarrow> controller" where
  "showNotification message type c = c\<lparr>notifications := notifications c @ [(message, type)]\<rparr>"

definition start_failed :: "string \<Rightarrow> string \<Rightarrow> controller \<Rightarrow> controller" where
  "start_failed pump message c =
     showNotification (''Error starting '' @ pump @ '' Pump: '' @ message) ''error''
       (c\<lparr>console_errors := console_errors c @ [''Error starting pump:'']\<rparr>)"

definition PumpController_startPump ::
  "string \<Rightarrow> page \<Rightarrow> fetch_result \<Rightarrow> controller \<Rightarrow> js_error + controller" where
  "PumpController_startPump pump doc response c =
     (case rpm_input doc pump of
        None \<Rightarrow> Inl TypeError
      | Some rpm_value \<Rightarrow>
     (case time_input doc pump of
        None \<Rightarrow> Inl TypeError
      | Some time_value \<Rightarrow>
     (case continuous_checkbox doc pump of
        None \<Rightarrow> Inl TypeError
      | Some cont \<Rightarrow>
          (let r = or_zero (parseFloat rpm_value);
               t = or_zero (parseInt time_value)
           in if r = Finite 0 \<or> isNaN r then
                Inr (showNotification (pump @ '' Pump: RPM cannot be 0'') ''error'' c)
              else
                (let c1 = c\<lparr>requests := requests c @
                            [\<lparr>url = apiBaseUrl @ ''/start_pump'', http_method = ''POST'',
                              body = StartBody pump r t (if cont then 1 else 0)\<rparr>]\<rparr>
                 in case response of
                      Rejected message \<Rightarrow> Inr (start_failed pump message c1)
                    | Result success message \<Rightarrow>
                        if success then
                          (case pumpStates c1 pump of
                             None \<Rightarrow> Inr (start_failed pump (type_error_message doc) c1)
                           | Some st \<Rightarrow>
                               (let c2 = c1\<lparr>pumpStates := (pumpStates c1)(pump \<mapsto>
                                           st\<lparr>ps_running := True, ps_rpm := r, ps_time := t,
                                              ps_continuous := cont\<rparr>)\<rparr>
                                in if display_elements doc pump then
                                     Inr (showNotification (pump @ '' Pump started successfully'')
                                            ''success''
                                            (c2\<lparr>display_updates :=
                                                  display_updates c2 @ [(pump, True)]\<rparr>))
                                   else Inr (start_failed pump (type_error_message doc) c2)))
                        else
                          Inr (showNotification
                                 (''Failed to start '' @ pump @ '' Pump: '' @ message)
                                 ''error'' c1))))))"

section \<open>Basic facts\<close>

lemmas pin_defs =
  X_STEP_PIN_def X_DIR_PIN_def X_ENABLE_PIN_def Y_STEP_PIN_def Y_DIR_PIN_def Y_ENABLE_PIN_def
  Z_STEP_PIN_def Z_DIR_PIN_def Z_ENABLE_PIN_def A_STEP_PIN_def A_DIR_PIN_def A_ENABLE_PIN_def

declare splitLoop.simps [simp del]

section \<open>Rounding to binary32 is monotone\<close>

lemma pow2_powi: "pow2 k = 2 powi k"
  by (simp add: pow2_def power_int_def power_one_over inverse_eq_divide)

lemma pow2_pos [simp]: "0 < pow2 k"
  by (simp add: pow2_powi zero_less_power_int)

lemma pow2_add: "pow2 (a + b) = pow2 a * pow2 b"
  by (simp add: pow2_powi power_int_add)

lemma pow2_mono: "a \<le> b \<Longrightarrow> pow2 a \<le> pow2 b"
  by (simp add: pow2_powi power_int_increasing)

lemma pow2_numeral: "pow2 24 = 16777216" "pow2 23 = 8388608"
  by (simp_all add: pow2_def)

lemma rne_floor: "\<lfloor>y\<rfloor> \<le> rne y" and rne_floor1: "rne y \<le> \<lfloor>y\<rfloor> + 1"
  by (simp_all add: rne_def Let_def)

lemma rne_of_int [simp]: "rne (of_int n) = n"
  by (simp add: rne_def Let_def)

lemma rne_le: "y \<le> of_int n \<Longrightarrow> rne y \<le> n"
proof (cases "y = of_int n")
  case True
  then show ?thesis by simp
next
  case False
  assume "y \<le> of_int n"
  with False have "y < of_int n" by simp
  then have "\<lfloor>y\<rfloor> < n" by (simp add: floor_less_iff)
  with rne_floor1 [of y] show ?thesis by linarith
qed

lemma rne_ge: "of_int n \<le> y \<Longrightarrow> n \<le> rne y"
proof -
  assume "of_int n \<le> y"
  then have "n \<le> \<lfloor>y\<rfloor>" by (simp add: le_floor_iff)
  with rne_floor [of y] show ?thesis by linarith
qed

lemma rne_mono: "x \<le> y \<Longrightarrow> rne x \<le> rne y"
proof (cases "\<lfloor>x\<rfloor> < \<lfloor>y\<rfloor>")
  case True
  with rne_floor1 [of x] rne_floor [of y] show ?thesis by linarith
next
  case False
  assume xy: "x \<le> y"
  then have "\<lfloor>x\<rfloor> \<le> \<lfloor>y\<rfloor>" by (rule floor_mono)
  with False have eq: "\<lfloor>x\<rfloor> = \<lfloor>y\<rfloor>" by simp
  with xy show ?thesis
    by (auto simp: rne_def Let_def)
qed

lemma find_exponent_Some:
  assumes "List.find (\<lambda>q. x < pow2 (q + 24)) ulp_exponents = Some q"
  shows "- 149 \<le> q" "q \<le> 104" "x < pow2 (q + 24)" "- 149 < q \<Longrightarrow> pow2 (q + 23) \<le> x"
proof -
  from assms obtain i where i: "i < length ulp_exponents"
    "x < pow2 (ulp_exponents ! i + 24)" "q = ulp_exponents ! i"
    "\<forall>j<i. \<not> x < pow2 (ulp_exponents ! j + 24)"
    by (auto simp: find_Some_iff)
  have length: "length ulp_exponents = 254"
    unfolding ulp_exponents_def length_upto by simp
  have nth: "ulp_exponents ! k = - 149 + int k" if "k < length ulp_exponents" for k
    unfolding ulp_exponents_def by (rule nth_upto) (use that length in simp)
  from i(1) have len: "i < 254" by (simp add: length)
  from i nth [OF i(1)] have q: "q = - 149 + int i" by simp
  with len show "- 149 \<le> q" "q \<le> 104" by simp_all
  from i(2,3) show "x < pow2 (q + 24)" by simp
  assume "- 149 < q"
  with q have "0 < i" by simp
  then have "i - 1 < i" by simp
  with i(4) have "\<not> x < pow2 (ulp_exponents ! (i - 1) + 24)" by blast
  moreover have "ulp_exponents ! (i - 1) = q - 1"
    using nth [of "i - 1"] i(1) q \<open>0 < i\<close> by (simp add: of_nat_diff)
  ultimately have "\<not> x < pow2 (q - 1 + 24)" by simp
  moreover have "q - 1 + 24 = q + 23" by simp
  ultimately show "pow2 (q + 23) \<le> x" by simp
qed

lemma find_exponent_None:
  assumes "List.find (\<lambda>q. x < pow2 (q + 24)) ulp_exponents = None"
  shows "pow2 128 \<le> x"
proof -
  have "(104 :: int) \<in> set ulp_exponents"
    unfolding ulp_exponents_def set_upto by simp
  with assms have "\<not> x < pow2 (104 + 24)"
    unfolding find_None_iff by blast
  then show ?thesis by simp
qed

lemma find_exponent_least:
  assumes "List.find (\<lambda>q. x < pow2 (q + 24)) ulp_exponents = Some q"
    and "- 149 \<le> q'" and "x < pow2 (q' + 24)"
  shows "q \<le> q'"
proof (rule ccontr)
  assume "\<not> q \<le> q'"
  then have lt: "q' < q" by simp
  with assms(2) have "- 149 < q" by simp
  from find_exponent_Some(4) [OF assms(1) this] have "pow2 (q + 23) \<le> x" .
  moreover from lt have "pow2 (q' + 24) \<le> pow2 (q + 23)" by (intro pow2_mono) simp
  ultimately show False using assms(3) by simp
qed

lemma round_mag_Some_bounds:
  assumes "List.find (\<lambda>q. x < pow2 (q + 24)) ulp_exponents = Some q"
  shows "round_mag x \<le> pow2 (q + 24)" "- 149 < q \<Longrightarrow> pow2 (q + 23) \<le> round_mag x"
proof -
  have r: "round_mag x = of_int (rne (x / pow2 q)) * pow2 q"
    using assms by (simp add: round_mag_def)
  have "x / pow2 q \<le> of_int 16777216"
    using find_exponent_Some(3) [OF assms] by (simp add: pow2_add pow2_numeral pos_divide_le_eq)
  then have "rne (x / pow2 q) \<le> 16777216" by (rule rne_le)
  then have "real_of_int (rne (x / pow2 q)) \<le> 16777216" by linarith
  then show "round_mag x \<le> pow2 (q + 24)"
    by (simp add: r pow2_add pow2_numeral mult.commute)
  assume "- 149 < q"
  from find_exponent_Some(4) [OF assms this]
  have "of_int 8388608 \<le> x / pow2 q"
    by (simp add: pow2_add pow2_numeral pos_le_divide_eq mult.commute)
  then have "8388608 \<le> rne (x / pow2 q)" by (rule rne_ge)
  then have "8388608 \<le> real_of_int (rne (x / pow2 q))" by linarith
  then show "pow2 (q + 23) \<le> round_mag x"
    by (simp add: r pow2_add pow2_numeral mult.commute)
qed

lemma round_mag_mono:
  assumes "x \<le> y"
  shows "round_mag x \<le> round_mag y"
proof (cases "List.find (\<lambda>q. y < pow2 (q + 24)) ulp_exponents")
  case None
  then have ry: "round_mag y = y" by (simp add: round_mag_def)
  show ?thesis
  proof (cases "List.find (\<lambda>q. x < pow2 (q + 24)) ulp_exponents")
    case None
    then show ?thesis using assms ry by (simp add: round_mag_def)
  next
    case (Some q)
    from round_mag_Some_bounds(1) [OF Some] have "round_mag x \<le> pow2 (q + 24)" .
    also have "\<dots> \<le> pow2 128"
      using find_exponent_Some(2) [OF Some] by (intro pow2_mono) simp
    also have "\<dots> \<le> y" using \<open>List.find (\<lambda>q. y < pow2 (q + 24)) ulp_exponents = None\<close>
      by (rule find_exponent_None)
    finally show ?thesis by (simp add: ry)
  qed
next
  case (Some qy)
  from find_exponent_Some [OF Some] assms have "x < pow2 (qy + 24)" "- 149 \<le> qy" by simp_all
  moreover have "qy \<in> set ulp_exponents"
    using find_exponent_Some(1,2) [OF Some] unfolding ulp_exponents_def set_upto by simp
  ultimately have "List.find (\<lambda>q. x < pow2 (q + 24)) ulp_exponents \<noteq> None"
    unfolding find_None_iff by blast
  then obtain qx where qx: "List.find (\<lambda>q. x < pow2 (q + 24)) ulp_exponents = Some qx"
    by blast
  have le: "qx \<le> qy"
    using qx \<open>- 149 \<le> qy\<close> \<open>x < pow2 (qy + 24)\<close> by (rule find_exponent_least)
  show ?thesis
  proof (cases "qx = qy")
    case True
    have "x / pow2 qy \<le> y / pow2 qy"
      by (rule divide_right_mono) (simp_all add: assms less_imp_le)
    then have "rne (x / pow2 qy) \<le> rne (y / pow2 qy)" by (rule rne_mono)
    then have "real_of_int (rne (x / pow2 qy)) \<le> real_of_int (rne (y / pow2 qy))" by linarith
    then show ?thesis
      using qx Some True by (simp add: round_mag_def)
  next
    case False
    with le have lt: "qx < qy" by simp
    with find_exponent_Some(1) [OF qx] have "- 149 < qy" by simp
    from round_mag_Some_bounds(1) [OF qx] have "round_mag x \<le> pow2 (qx + 24)" .
    also have "\<dots> \<le> pow2 (qy + 23)" using lt by (intro pow2_mono) simp
    also have "\<dots> \<le> round_mag y" using Some \<open>- 149 < qy\<close> by (rule round_mag_Some_bounds(2))
    finally show ?thesis .
  qed
qed

lemma round_mag_nonneg: "0 \<le> x \<Longrightarrow> 0 \<le> round_mag x"
proof -
  assume "0 \<le> x"
  have "round_mag 0 = 0"
    by (simp add: round_mag_def ulp_exponents_def pow2_def rne_def)
  with round_mag_mono [OF \<open>0 \<le> x\<close>] show ?thesis by simp
qed

lemmas round_eval = round_mag_def ulp_exponents_def pow2_def rne_def Let_def

lemmas float_eval =
  frnd_def fmul_def fdiv_def fneg_def fsign_def fmag_def is_inf_def is_zero_def signed_inf_def
  signed_zero_def flevel_def fval_def fless_def feq_def fle_def abs_macro_def

section \<open>The interval as a function of the rpm\<close>

lemma round_mag_0 [simp]: "round_mag 0 = 0"
  by (simp add: round_eval)

lemma frnd_False: "frnd False x = (if pow2 128 \<le> round_mag x then PInf else Val (round_mag x))"
  by (simp add: frnd_def Let_def signed_inf_def signed_zero_def)

lemma fle_refl_ext: "a = PInf \<or> (\<exists>v. a = Val v) \<Longrightarrow> fle a a"
  by (auto simp: fle_def feq_def)

lemma frnd_mono:
  assumes "x \<le> y"
  shows "fle (frnd False x) (frnd False y)"
  using round_mag_mono [OF assms]
  by (auto simp: frnd_False fle_def fless_def feq_def flevel_def fval_def)

lemma frnd_ext: "0 \<le> x \<Longrightarrow> frnd False x = PInf \<or> (\<exists>v\<ge>0. frnd False x = Val v)"
  using round_mag_nonneg [of x] by (simp add: frnd_False)

lemma fmul_Val: "0 \<le> a \<Longrightarrow> 0 \<le> b \<Longrightarrow> fmul (Val a) (Val b) = frnd False (a * b)"
  by (simp add: fmul_def fsign_def fmag_def is_inf_def)

lemma fdiv_Val: "0 \<le> a \<Longrightarrow> 0 < b \<Longrightarrow> fdiv (Val a) (Val b) = frnd False (a / b)"
  by (simp add: fdiv_def fsign_def fmag_def is_inf_def is_zero_def)

lemma fmul_PInf_million: "fmul PInf (Val 1000000) = PInf"
  by (simp add: fmul_def fsign_def is_inf_def is_zero_def signed_inf_def)

lemma fdiv_one_zero: "fdiv (Val 1) (Val 0) = PInf"
  by (simp add: fdiv_def fsign_def is_inf_def is_zero_def signed_inf_def)

lemma fmul_million_ext:
  assumes "a = PInf \<or> (\<exists>v\<ge>0. a = Val v)"
  shows "fmul a (Val 1000000) = PInf \<or> (\<exists>v\<ge>0. fmul a (Val 1000000) = Val v)"
proof (cases "a = PInf")
  case True
  then show ?thesis by (simp add: fmul_PInf_million)
next
  case False
  with assms obtain v where "a = Val v" "0 \<le> v" by blast
  then show ?thesis
    using frnd_ext [of "v * 1000000"] by (simp add: fmul_Val)
qed

lemma fmul_million_mono:
  assumes "a = PInf \<or> (\<exists>v\<ge>0. a = Val v)" and "b = PInf \<or> (\<exists>v\<ge>0. b = Val v)"
    and "fle a b"
  shows "fle (fmul a (Val 1000000)) (fmul b (Val 1000000))"
proof (cases "b = PInf")
  case True
  then have "fmul b (Val 1000000) = PInf"
    by (simp add: fmul_def fsign_def is_inf_def is_zero_def signed_inf_def)
  moreover have "fmul a (Val 1000000) = PInf \<or> (\<exists>v\<ge>0. fmul a (Val 1000000) = Val v)"
    using assms(1) by (rule fmul_million_ext)
  ultimately show ?thesis
    by (auto simp: fle_def fless_def feq_def flevel_def)
next
  case False
  with assms(2) obtain w where w: "b = Val w" "0 \<le> w" by blast
  with assms(1,3) obtain v where v: "a = Val v" "0 \<le> v" "v \<le> w"
    by (auto simp: fle_def fless_def feq_def flevel_def fval_def)
  then have "v * 1000000 \<le> w * 1000000" by simp
  then show ?thesis
    using v w by (simp add: fmul_Val frnd_mono)
qed

lemma EFFECTIVE_STEPS_PER_REV_eq: "EFFECTIVE_STEPS_PER_REV = Val 3200"
  by (simp add: EFFECTIVE_STEPS_PER_REV_def STEPS_PER_REV_def MICROSTEPPING_def float_eval
      round_eval)

lemma pow2_128_large: "160000 < pow2 128"
  by (simp add: pow2_def)

lemma steps_bound:
  assumes "0 < x" and "x \<le> 3000"
  shows "0 \<le> round_mag (round_mag (x / 60) * 3200)"
    and "round_mag (round_mag (x / 60) * 3200) \<le> 160000"
    and "round_mag (x / 60) \<le> 50" and "0 \<le> round_mag (x / 60)"
proof -
  have a50: "round_mag (3000 / 60) = 50" and b: "round_mag (50 * 3200) = 160000"
    by (simp_all add: round_eval)
  from assms show a: "0 \<le> round_mag (x / 60)" by (intro round_mag_nonneg) simp
  from assms have "x / 60 \<le> 3000 / 60" by simp
  from round_mag_mono [OF this] show a': "round_mag (x / 60) \<le> 50" by (simp only: a50)
  from a show "0 \<le> round_mag (round_mag (x / 60) * 3200)" by (intro round_mag_nonneg) simp
  from a' have "round_mag (x / 60) * 3200 \<le> 50 * 3200" by simp
  from round_mag_mono [OF this] show "round_mag (round_mag (x / 60) * 3200) \<le> 160000"
    by (simp only: b)
qed

lemma stepInterval_Val:
  assumes "0 < x" and "x \<le> 3000"
  shows "stepInterval (Val x) =
           (if round_mag (round_mag (x / 60) * 3200) = 0 then PInf
            else fmul (frnd False (1 / round_mag (round_mag (x / 60) * 3200))) (Val 1000000))"
proof -
  note b = steps_bound [OF assms]
  have a: "fdiv (Val x) (Val 60) = Val (round_mag (x / 60))"
    using assms b(3) pow2_128_large by (simp add: fdiv_Val frnd_False)
  have s: "fmul (Val (round_mag (x / 60))) (Val 3200) =
      Val (round_mag (round_mag (x / 60) * 3200))"
    using b pow2_128_large by (simp add: fmul_Val frnd_False)
  show ?thesis
  proof (cases "round_mag (round_mag (x / 60) * 3200) = 0")
    case True
    then show ?thesis
      by (simp only: stepInterval_def Let_def EFFECTIVE_STEPS_PER_REV_eq a s fdiv_one_zero fmul_PInf_million)
         simp
  next
    case False
    with b(1) have "0 < round_mag (round_mag (x / 60) * 3200)" by simp
    with False show ?thesis
      by (simp only: stepInterval_def Let_def EFFECTIVE_STEPS_PER_REV_eq a s if_False) (simp add: fdiv_Val)
  qed
qed

lemma tail_mono:
  assumes "0 < b1" and "b1 \<le> b2"
  shows "fle (fmul (frnd False (1 / b2)) (Val 1000000)) (fmul (frnd False (1 / b1)) (Val 1000000))"
proof -
  from assms have "1 / b2 \<le> 1 / b1" by (simp add: frac_le)
  then have "fle (frnd False (1 / b2)) (frnd False (1 / b1))" by (rule frnd_mono)
  moreover from assms have "0 \<le> 1 / b1" "0 \<le> 1 / b2" by simp_all
  ultimately show ?thesis
    by (intro fmul_million_mono frnd_ext)
qed

lemma tail_160000: "fmul (frnd False (1 / 160000)) (Val 1000000) = Val (25 / 4)"
  by (simp add: float_eval round_eval)

lemma stepInterval_mono:
  assumes "0 < x" and "x \<le> y" and "y \<le> 3000"
  shows "fle (stepInterval (Val y)) (stepInterval (Val x))"
proof -
  let ?b = "\<lambda>x. round_mag (round_mag (x / 60) * 3200)"
  from assms have y: "0 < y" by simp
  from assms have x: "x \<le> 3000" by simp
  from assms have "x / 60 \<le> y / 60" by simp
  then have "round_mag (x / 60) * 3200 \<le> round_mag (y / 60) * 3200"
    using round_mag_mono by simp
  then have le: "?b x \<le> ?b y" by (rule round_mag_mono)
  have ext: "stepInterval (Val y) = PInf \<or> (\<exists>v. stepInterval (Val y) = Val v)"
  proof (cases "?b y = 0")
    case True
    then show ?thesis by (simp add: stepInterval_Val [OF y assms(3)])
  next
    case False
    with steps_bound(1) [OF y assms(3)] have "0 \<le> 1 / ?b y" by simp
    from fmul_million_ext [OF frnd_ext [OF this]]
    have "fmul (frnd False (1 / ?b y)) (Val 1000000) = PInf \<or>
        (\<exists>v. fmul (frnd False (1 / ?b y)) (Val 1000000) = Val v)"
      by blast
    with False show ?thesis by (simp add: stepInterval_Val [OF y assms(3)])
  qed
  show ?thesis
  proof (cases "?b x = 0")
    case True
    then have "stepInterval (Val x) = PInf" by (simp add: stepInterval_Val [OF assms(1) x])
    with ext show ?thesis
      by (auto simp: fle_def fless_def feq_def flevel_def)
  next
    case False
    with steps_bound(1) [OF assms(1) x] have px: "0 < ?b x" by simp
    with le have "?b y \<noteq> 0" by simp
    with False tail_mono [OF px le] show ?thesis
      by (simp add: stepInterval_Val [OF assms(1) x] stepInterval_Val [OF y assms(3)])
  qed
qed

lemma stepInterval_3000: "stepInterval (Val 3000) = Val (25 / 4)"
  by (simp add: stepInterval_def EFFECTIVE_STEPS_PER_REV_eq float_eval round_eval)

lemma stepInterval_positive:
  assumes "0 < x" and "x \<le> 3000"
  shows "fless (Val 0) (stepInterval (Val x))"
  using stepInterval_mono [OF assms(1) assms(2) order_refl]
  by (auto simp: stepInterval_3000 fle_def fless_def feq_def flevel_def fval_def
      split: cfloat.splits)

lemma valid_rpm:
  assumes "fless (Val 0) (abs_macro r)" and "fle (abs_macro r) (Val 3000)"
  obtains x where "abs_macro r = Val x" "0 < x" "x \<le> 3000"
  using assms
  by (cases r) (auto simp: float_eval split: if_splits)

section \<open>Activation and deactivation, field by field\<close>

lemma stopPump_pumps:
  "pumps (stopPump i s) = (pumps s)(i := (pumps s i)\<lparr>isRunning := False\<rparr>)"
  by (auto simp: stopPump_def Let_def digitalWrite_def Serial_print_def Serial_println_def
      fun_eq_iff)

lemma stopPump_gpio:
  "gpio (stopPump i s) =
     gpio s @ (if isRunning (pumps s i) then [(enablePin (pumps s i), HIGH)] else [])"
  by (simp add: stopPump_def Let_def digitalWrite_def Serial_print_def Serial_println_def)

lemma stopPump_pins:
  "pins (stopPump i s) =
     (if isRunning (pumps s i) then (pins s)(enablePin (pumps s i) := HIGH) else pins s)"
  by (simp add: stopPump_def Let_def digitalWrite_def Serial_print_def Serial_println_def)

lemma stopPump_serial:
  "serial (stopPump i s) =
     serial s @ (if isRunning (pumps s i)
                 then [Print (Str ''Stopped pump ''), Println (Chr (name (pumps s i)))] else [])"
  by (simp add: stopPump_def Let_def digitalWrite_def Serial_print_def Serial_println_def)

lemma stopPump_idle: "\<not> isRunning (pumps s i) \<Longrightarrow> stopPump i s = s"
  by (simp add: stopPump_def)

lemma startPump_pumps:
  "pumps (startPump i r d c clk s) =
     (pumps s)(i := (pumps s i)
        \<lparr>intervalMicros := stepInterval (abs_macro r), rpm := abs_macro r, duration := d,
         continuous := c, isRunning := True, startTime := millis clk,
         lastStepTime := micros clk\<rparr>)"
  by (simp add: startPump_def Let_def stopPump_pumps digitalWrite_def Serial_print_def
      Serial_println_def fun_eq_iff)

lemma startPump_gpio:
  "gpio (startPump i r d c clk s) =
     gpio s @ (if isRunning (pumps s i) then [(enablePin (pumps s i), HIGH)] else [])
       @ [(dirPin (pumps s i), fless (Val 0) r), (enablePin (pumps s i), LOW)]"
  by (simp add: startPump_def Let_def stopPump_pumps stopPump_gpio digitalWrite_def
      Serial_print_def Serial_println_def)

lemma startPump_pins:
  "pins (startPump i r d c clk s) =
     (pins s)(dirPin (pumps s i) := fless (Val 0) r, enablePin (pumps s i) := LOW)"
  by (auto simp add: startPump_def Let_def stopPump_pumps stopPump_pins digitalWrite_def
      Serial_print_def Serial_println_def fun_eq_iff)

section \<open>The step interval\<close>

text \<open>
  Claim C7, as stated, fails: the interval is computed in 32-bit floating point, and two
  valid RPMs of different magnitude can get the same interval. 1000 and the next
  \<open>float\<close> above it, \<open>1000 + 2 ^ - 14\<close>, both get 18.75, so the interval does not
  strictly decrease.
\<close>

theorem adjacent_rpms_share_interval:
  "fless (Val 0) (abs_macro (Val 1000)) \<and>
   fless (abs_macro (Val 1000)) (abs_macro (Val (16384001 / 16384))) \<and>
   fle (abs_macro (Val (16384001 / 16384))) (Val 3000) \<and>
   frnd False (16384001 / 16384) = Val (16384001 / 16384) \<and>
   intervalMicros (pumps (startPump 0 (Val 1000) 10 False \<lparr>millis = 0, micros = 0\<rparr>
      (setup_sketch power_on)) 0) = Val (75 / 4) \<and>
   intervalMicros (pumps (startPump 0 (Val (16384001 / 16384)) 10 False
      \<lparr>millis = 0, micros = 0\<rparr> (setup_sketch power_on)) 0) = Val (75 / 4) \<and>
   \<not> fless
      (intervalMicros (pumps (startPump 0 (Val (16384001 / 16384)) 10 False
         \<lparr>millis = 0, micros = 0\<rparr> (setup_sketch power_on)) 0))
      (intervalMicros (pumps (startPump 0 (Val 1000) 10 False \<lparr>millis = 0, micros = 0\<rparr>
         (setup_sketch power_on)) 0))"
proof -
  have a: "abs_macro (Val 1000) = Val 1000"
    "abs_macro (Val (16384001 / 16384)) = Val (16384001 / 16384)"
    by (simp_all add: float_eval)
  have i: "stepInterval (Val 1000) = Val (75 / 4)"
    "stepInterval (Val (16384001 / 16384)) = Val (75 / 4)"
    by (simp_all add: stepInterval_def EFFECTIVE_STEPS_PER_REV_eq float_eval round_eval)
  have f: "frnd False (16384001 / 16384) = Val (16384001 / 16384)"
    by (simp add: float_eval round_eval)
  show ?thesis
    by (simp add: startPump_pumps a i f) (simp add: float_eval)
qed

text \<open>
  Claim C7, amended. For every RPM \<open>r\<close> of the valid range, \<open>0 < |r| \<le> 3000\<close>, the
  interval that \<open>startPump\<close> stores is \<open>(1 / ((|r| / 60) * 3200)) * 1e6\<close> with every
  operation rounded to binary32, and it is strictly positive; and of two valid RPMs the
  one of larger magnitude never gets the larger interval.
\<close>

theorem interval_positive_nonincreasing:
  "(fless (Val 0) (abs_macro r) \<and> fle (abs_macro r) (Val 3000) \<longrightarrow>
      intervalMicros (pumps (startPump i r d c clk s) i) =
        fmul (fdiv (Val 1) (fmul (fdiv (abs_macro r) (Val 60)) (Val 3200))) (Val 1000000) \<and>
      fless (Val 0) (intervalMicros (pumps (startPump i r d c clk s) i))) \<and>
   (fless (Val 0) (abs_macro r) \<and> fless (abs_macro r) (abs_macro r') \<and>
      fle (abs_macro r') (Val 3000) \<longrightarrow>
      fle (intervalMicros (pumps (startPump i' r' d' c' clk' s') i'))
        (intervalMicros (pumps (startPump i r d c clk s) i)))"
proof (intro conjI impI)
  assume v: "fless (Val 0) (abs_macro r) \<and> fle (abs_macro r) (Val 3000)"
  show "intervalMicros (pumps (startPump i r d c clk s) i) =
      fmul (fdiv (Val 1) (fmul (fdiv (abs_macro r) (Val 60)) (Val 3200))) (Val 1000000)"
    by (simp add: startPump_pumps stepInterval_def EFFECTIVE_STEPS_PER_REV_eq)
  from v obtain x where "abs_macro r = Val x" "0 < x" "x \<le> 3000"
    by (auto elim: valid_rpm)
  then show "fless (Val 0) (intervalMicros (pumps (startPump i r d c clk s) i))"
    by (simp add: startPump_pumps stepInterval_positive)
next
  assume v: "fless (Val 0) (abs_macro r) \<and> fless (abs_macro r) (abs_macro r') \<and>
      fle (abs_macro r') (Val 3000)"
  then have "fless (Val 0) (abs_macro r')" "fle (abs_macro r) (Val 3000)"
    by (auto simp: fle_def fless_def feq_def flevel_def fval_def split: cfloat.splits)
  with v obtain x y where x: "abs_macro r = Val x" "0 < x" "x \<le> 3000"
    and y: "abs_macro r' = Val y" "0 < y" "y \<le> 3000"
    by (auto elim!: valid_rpm)
  with v have "x \<le> y"
    by (simp add: fless_def flevel_def fval_def)
  with x y show "fle (intervalMicros (pumps (startPump i' r' d' c' clk' s') i'))
      (intervalMicros (pumps (startPump i r d c clk s) i))"
    by (simp add: startPump_pumps stepInterval_mono)
qed

theorem interval_positive_nonincreasing_witness:
  "intervalMicros (pumps (startPump 0 (Val (- 50)) 10 False \<lparr>millis = 0, micros = 0\<rparr>
      (setup_sketch power_on)) 0) = Val (12288001 / 32768) \<and>
   intervalMicros (pumps (startPump 0 (Val 3000) 10 False \<lparr>millis = 0, micros = 0\<rparr>
      (setup_sketch power_on)) 0) = Val (25 / 4) \<and>
   fless (Val 0) (intervalMicros (pumps (startPump 0 (Val (- 50)) 10 False
      \<lparr>millis = 0, micros = 0\<rparr> (setup_sketch power_on)) 0)) \<and>
   fle (intervalMicros (pumps (startPump 0 (Val 3000) 10 False \<lparr>millis = 0, micros = 0\<rparr>
          (setup_sketch power_on)) 0))
       (intervalMicros (pumps (startPump 0 (Val (- 50)) 10 False \<lparr>millis = 0, micros = 0\<rparr>
          (setup_sketch power_on)) 0))"
proof -
  have a: "abs_macro (Val (- 50)) = Val 50" "abs_macro (Val 3000) = Val 3000"
    by (simp_all add: float_eval)
  have v: "fless (Val 0) (Val 50)" "fle (Val 50) (Val 3000)" "fless (Val 50) (Val 3000)"
    "fle (Val 3000) (Val 3000)"
    by (simp_all add: float_eval)
  have e: "fmul (fdiv (Val 1) (fmul (fdiv (Val 50) (Val 60)) (Val 3200))) (Val 1000000) =
      Val (12288001 / 32768)"
    "stepInterval (Val 3000) = Val (25 / 4)"
    by (simp_all add: stepInterval_def EFFECTIVE_STEPS_PER_REV_eq float_eval round_eval)
  show ?thesis
    using interval_positive_nonincreasing [of "Val (- 50)" 0 10 False
        "\<lparr>millis = 0, micros = 0\<rparr>" "setup_sketch power_on" "Val 3000" 0 10 False
        "\<lparr>millis = 0, micros = 0\<rparr>" "setup_sketch power_on"]
    by (simp add: a v e startPump_pumps) (simp add: float_eval)
qed

lemmas parse_defs =
  toFloat_def atof_def toInt_def atol_def isspace_def isdigit_def skip_sign_def is_negative_def
  fraction_digits_def after_fraction_def exponent_def scale10_def digit_val_def
  is_letter_def spells_inf_def spells_nan_def

lemmas line_defs =
  trim_def startsWith_def charAt_def substring_def storePart_def splitLoop.simps

lemma indices_lt: "i \<in> set indices \<longleftrightarrow> i < 4"
  by (auto simp: indices_def)

lemma findPumpIndex_Some:
  "findPumpIndex ch s = Some i \<Longrightarrow> i < 4 \<and> name (pumps s i) = ch"
  by (auto simp: findPumpIndex_def indices_def split: if_splits)

lemma setup_pumps: "pumps (setup_sketch power_on) = pumps_init"
  by (simp add: setup_sketch_def power_on_def indices_def digitalWrite_def Serial_println_def)

lemma setup_pins8: "pins (setup_sketch power_on) 8 = HIGH"
  by (simp add: setup_sketch_def power_on_def indices_def digitalWrite_def Serial_println_def
      pumps_init_def mkPump_def pin_defs)

lemma println_pumps [simp]: "pumps (Serial_println a s) = pumps s"
  by (simp add: Serial_println_def)

lemma println_pins [simp]: "pins (Serial_println a s) = pins s"
  by (simp add: Serial_println_def)

lemma println_gpio [simp]: "gpio (Serial_println a s) = gpio s"
  by (simp add: Serial_println_def)

lemma println_serial [simp]: "serial (Serial_println a s) = serial s @ [Println a]"
  by (simp add: Serial_println_def)

lemma fold_stopPump_running:
  "isRunning (pumps (fold stopPump is s) i) = (isRunning (pumps s i) \<and> i \<notin> set is)"
  by (induction "is" arbitrary: s) (auto simp: stopPump_pumps)

lemma findPumpIndex_X: "name (pumps s 0) = CHR ''X'' \<Longrightarrow> findPumpIndex (CHR ''X'') s = Some 0"
  by (simp add: findPumpIndex_def indices_def)

lemma START_X_50_10_0:
  "name (pumps s 0) = CHR ''X'' \<Longrightarrow>
   processCommand ''START,X,50,10,0'' clk s =
     Serial_println (Str ''OK'') (startPump 0 (Val 50) 10 False clk s)"
  by (simp add: processCommand_def handleStartCommand_def line_defs parse_defs Let_def
      findPumpIndex_X float_eval round_eval)

lemma START_X_m50_5_0:
  "name (pumps s 0) = CHR ''X'' \<Longrightarrow>
   processCommand ''START,X,-50,5,0'' clk s =
     Serial_println (Str ''OK'') (startPump 0 (Val (- 50)) 5 False clk s)"
  by (simp add: processCommand_def handleStartCommand_def line_defs parse_defs Let_def
      findPumpIndex_X float_eval round_eval)

lemma setup_name0: "name (pumps (setup_sketch power_on) 0) = CHR ''X''"
  by (simp add: setup_pumps pumps_init_def mkPump_def)



section \<open>Activation\<close>

lemma findPumpIndex_first:
  "findPumpIndex ch s = Some i \<Longrightarrow> j < i \<Longrightarrow> name (pumps s j) \<noteq> ch"
  by (auto simp: findPumpIndex_def indices_def less_Suc_eq numeral_eq_Suc split: if_splits)

lemma accepted_START:
  assumes "startsWith (trim cmd) ''START''"
    and "last (serial (processCommand cmd clk s)) = Println (Str ''OK'')"
  shows "length (splitLoop (trim cmd) 0 0 []) = 5 \<and>
         (\<exists>i. findPumpIndex (charAt (splitLoop (trim cmd) 0 0 [] ! 1) 0) s = Some i \<and>
           processCommand cmd clk s =
             Serial_println (Str ''OK'')
               (startPump i (toFloat (splitLoop (trim cmd) 0 0 [] ! 2))
                  (toInt (splitLoop (trim cmd) 0 0 [] ! 3))
                  (toInt (splitLoop (trim cmd) 0 0 [] ! 4) = 1) clk s))"
proof -
  have cmd: "processCommand cmd clk s = handleStartCommand (trim cmd) clk s"
    using assms(1) by (simp add: processCommand_def Let_def)
  show ?thesis
    using assms(2) unfolding cmd
    by (auto simp: handleStartCommand_def Let_def split: option.splits if_splits)
qed

text \<open>
  Claim C6. \<open>startPump\<close> first deactivates the channel if it is running: the pin writes
  it adds are the enable pin high (only if the channel was running), then one write of the
  direction pin, high exactly for a positive rpm, then the enable pin low; so a restart
  reverses the direction once and never asserts enable twice without releasing it in
  between. It stores the interval computed in 32-bit floating point from \<open>abs(rpm)\<close>
  (the quotient by 60, the product with 3200, the reciprocal, the product with 1000000, each
  rounded), \<open>abs(rpm)\<close>, the duration and the continuous flag, marks the channel
  running and records the clock readings; the pins and the name of the channel and all
  other channels are as before. A START line that is accepted (answered \<open>OK\<close>) has
  five fields and is exactly this call: on the first of the four channels whose name is the
  first character of the second field, with the rpm read from the third field, the duration
  from the fourth and the continuous flag set exactly when the fifth reads as 1, followed
  by the answer.
\<close>

theorem activation_restart:
  "gpio (startPump i r d c clk s) =
     gpio s @ (if isRunning (pumps s i) then [(enablePin (pumps s i), HIGH)] else [])
       @ [(dirPin (pumps s i), fless (Val 0) r), (enablePin (pumps s i), LOW)] \<and>
   pumps (startPump i r d c clk s) i =
     (pumps s i)\<lparr>intervalMicros :=
         fmul (fdiv (Val 1) (fmul (fdiv (abs_macro r) (Val 60)) (Val 3200))) (Val 1000000),
       rpm := abs_macro r, duration := d, continuous := c, isRunning := True,
       startTime := millis clk, lastStepTime := micros clk\<rparr> \<and>
   (\<forall>j. j \<noteq> i \<longrightarrow> pumps (startPump i r d c clk s) j = pumps s j) \<and>
   (startsWith (trim cmd) ''START'' \<and>
      last (serial (processCommand cmd clk' s')) = Println (Str ''OK'') \<longrightarrow>
      length (splitLoop (trim cmd) 0 0 []) = 5 \<and>
      (\<exists>i'<4. name (pumps s' i') = charAt (splitLoop (trim cmd) 0 0 [] ! 1) 0 \<and>
         (\<forall>j<i'. name (pumps s' j) \<noteq> charAt (splitLoop (trim cmd) 0 0 [] ! 1) 0) \<and>
         processCommand cmd clk' s' =
           Serial_println (Str ''OK'')
             (startPump i' (toFloat (splitLoop (trim cmd) 0 0 [] ! 2))
                (toInt (splitLoop (trim cmd) 0 0 [] ! 3))
                (toInt (splitLoop (trim cmd) 0 0 [] ! 4) = 1) clk' s')))"
proof -
  have link: "length (splitLoop (trim cmd) 0 0 []) = 5 \<and>
      (\<exists>i'<4. name (pumps s' i') = charAt (splitLoop (trim cmd) 0 0 [] ! 1) 0 \<and>
         (\<forall>j<i'. name (pumps s' j) \<noteq> charAt (splitLoop (trim cmd) 0 0 [] ! 1) 0) \<and>
         processCommand cmd clk' s' =
           Serial_println (Str ''OK'')
             (startPump i' (toFloat (splitLoop (trim cmd) 0 0 [] ! 2))
                (toInt (splitLoop (trim cmd) 0 0 [] ! 3))
                (toInt (splitLoop (trim cmd) 0 0 [] ! 4) = 1) clk' s'))"
    if a: "startsWith (trim cmd) ''START''"
      and b: "last (serial (processCommand cmd clk' s')) = Println (Str ''OK'')"
  proof -
    from accepted_START [OF a b] obtain k where
      n: "length (splitLoop (trim cmd) 0 0 []) = 5"
      and k: "findPumpIndex (charAt (splitLoop (trim cmd) 0 0 [] ! 1) 0) s' = Some k"
      and p: "processCommand cmd clk' s' =
           Serial_println (Str ''OK'')
             (startPump k (toFloat (splitLoop (trim cmd) 0 0 [] ! 2))
                (toInt (splitLoop (trim cmd) 0 0 [] ! 3))
                (toInt (splitLoop (trim cmd) 0 0 [] ! 4) = 1) clk' s')"
      by blast
    from findPumpIndex_Some [OF k] findPumpIndex_first [OF k] p n show ?thesis by blast
  qed
  have iv: "stepInterval x =
      fmul (fdiv (Val 1) (fmul (fdiv x (Val 60)) (Val 3200))) (Val 1000000)" for x
    by (simp add: stepInterval_def Let_def EFFECTIVE_STEPS_PER_REV_eq)
  show ?thesis
    using link by (simp add: startPump_gpio startPump_pumps iv)
qed

theorem activation_restart_witness:
  "gpio (processCommand ''START,X,-50,5,0'' \<lparr>millis = 2000, micros = 2000000\<rparr>
      (processCommand ''START,X,50,10,0'' \<lparr>millis = 1000, micros = 1000000\<rparr>
        (setup_sketch power_on))) =
     gpio (setup_sketch power_on) @ [(5, HIGH), (8, LOW)] @ [(8, HIGH), (5, LOW), (8, LOW)] \<and>
   pumps (processCommand ''START,X,-50,5,0'' \<lparr>millis = 2000, micros = 2000000\<rparr>
      (processCommand ''START,X,50,10,0'' \<lparr>millis = 1000, micros = 1000000\<rparr>
        (setup_sketch power_on))) 0 =
     \<lparr>stepPin = 2, dirPin = 5, enablePin = 8, isRunning = True, rpm = Val 50, duration = 5,
      continuous = False, startTime = 2000, intervalMicros = Val (12288001 / 32768),
      lastStepTime = 2000000, name = CHR ''X''\<rparr> \<and>
   startsWith (trim ''START,X,50,10,0'') ''START'' \<and>
   last (serial (processCommand ''START,X,50,10,0'' \<lparr>millis = 1000, micros = 1000000\<rparr>
      (setup_sketch power_on))) = Println (Str ''OK'') \<and>
   processCommand ''START,X,50,10,0'' \<lparr>millis = 1000, micros = 1000000\<rparr>
      (setup_sketch power_on) =
     Serial_println (Str ''OK'')
       (startPump 0 (Val 50) 10 False \<lparr>millis = 1000, micros = 1000000\<rparr>
          (setup_sketch power_on))"
proof -
  let ?s0 = "setup_sketch power_on"
  let ?s1 = "startPump 0 (Val 50) 10 False \<lparr>millis = 1000, micros = 1000000\<rparr> ?s0"
  have first: "processCommand ''START,X,50,10,0'' \<lparr>millis = 1000, micros = 1000000\<rparr> ?s0 =
      Serial_println (Str ''OK'') ?s1"
    by (rule START_X_50_10_0) (rule setup_name0)
  have name1: "name (pumps (Serial_println (Str ''OK'') ?s1) 0) = CHR ''X''"
    by (simp add: startPump_pumps setup_name0)
  have second: "processCommand ''START,X,-50,5,0'' \<lparr>millis = 2000, micros = 2000000\<rparr>
      (Serial_println (Str ''OK'') ?s1) =
      Serial_println (Str ''OK'')
        (startPump 0 (Val (- 50)) 5 False \<lparr>millis = 2000, micros = 2000000\<rparr>
          (Serial_println (Str ''OK'') ?s1))"
    by (rule START_X_m50_5_0) (rule name1)
  have st: "startsWith (trim ''START,X,50,10,0'') ''START''"
    by (simp add: line_defs isspace_def)
  have a: "abs_macro (Val (- 50)) = Val 50" "abs_macro (Val 50) = Val 50"
    "fless (Val 0) (Val 50)" "\<not> fless (Val 0) (Val (- 50))"
    by (simp_all add: float_eval)
  have v: "fmul (fdiv (Val 1) (fmul (fdiv (Val 50) (Val 60)) (Val 3200))) (Val 1000000) =
      Val (12288001 / 32768)"
    by (simp add: float_eval round_eval)
  show ?thesis
    using activation_restart [of 0 "Val 50" 10 False "\<lparr>millis = 1000, micros = 1000000\<rparr>" ?s0
        "''START,X,50,10,0''" "\<lparr>millis = 1000, micros = 1000000\<rparr>" ?s0]
      activation_restart [of 0 "Val (- 50)" 5 False "\<lparr>millis = 2000, micros = 2000000\<rparr>"
        "Serial_println (Str ''OK'') ?s1" "''START,X,50,10,0''"
        "\<lparr>millis = 1000, micros = 1000000\<rparr>" ?s0]
    by (simp add: first second st a v setup_pumps pumps_init_def mkPump_def pin_defs)
qed

section \<open>Validation of START and STOP\<close>

text \<open>
  The range test of \<open>handleStartCommand\<close> is \<open>rpm == 0 || abs(rpm) > 3000\<close> on the
  32-bit value that \<open>toFloat\<close> returns. For a five-field START line whose rpm field
  reads as \<open>r\<close>, the line is accepted only if neither comparison holds; if one holds, the
  only effect is one error line (the id is checked first), and the channels, the pins and
  the pin writes are unchanged. For a number \<open>x\<close> the two comparisons fail exactly when
  \<open>0 < |x| \<le> 3000\<close>.
\<close>

lemma start_rpm_check:
  assumes "startsWith (trim cmd) ''START''"
    and "length (splitLoop (trim cmd) 0 0 []) = 5"
    and "r = toFloat (splitLoop (trim cmd) 0 0 [] ! 2)"
  shows "(last (serial (processCommand cmd clk s)) = Println (Str ''OK'')
            \<longrightarrow> \<not> feq r (Val 0) \<and> \<not> fless (Val 3000) (abs_macro r)) \<and>
         ((feq r (Val 0) \<or> fless (Val 3000) (abs_macro r)) \<longrightarrow>
            (findPumpIndex (charAt (splitLoop (trim cmd) 0 0 [] ! 1) 0) s \<noteq> None \<longrightarrow>
               processCommand cmd clk s =
                 Serial_println (Str ''ERROR: RPM must be between -3000 and 3000'') s) \<and>
            (findPumpIndex (charAt (splitLoop (trim cmd) 0 0 [] ! 1) 0) s = None \<longrightarrow>
               processCommand cmd clk s =
                 Serial_println (Str ''ERROR: Invalid pump identifier'') s) \<and>
            pumps (processCommand cmd clk s) = pumps s \<and>
            pins (processCommand cmd clk s) = pins s \<and>
            gpio (processCommand cmd clk s) = gpio s)"
proof -
  have cmd: "processCommand cmd clk s = handleStartCommand (trim cmd) clk s"
    using assms(1) by (simp add: processCommand_def Let_def)
  show ?thesis
    unfolding cmd using assms(2,3)
    by (auto simp: handleStartCommand_def Let_def split: option.splits)
qed

lemma numeric_rpm_check:
  "(\<not> feq (Val x) (Val 0) \<and> \<not> fless (Val 3000) (abs_macro (Val x))) \<longleftrightarrow>
     (0 < \<bar>x\<bar> \<and> \<bar>x\<bar> \<le> 3000)"
  by (auto simp: float_eval)

lemma rpm_range_examples:
  "processCommand ''START,X,0,10,0'' \<lparr>millis = 0, micros = 0\<rparr> (setup_sketch power_on) =
     Serial_println (Str ''ERROR: RPM must be between -3000 and 3000'') (setup_sketch power_on) \<and>
   processCommand ''START,X,5000,10,0'' \<lparr>millis = 0, micros = 0\<rparr> (setup_sketch power_on) =
     Serial_println (Str ''ERROR: RPM must be between -3000 and 3000'') (setup_sketch power_on)"
  by (simp add: processCommand_def handleStartCommand_def line_defs parse_defs Let_def
      findPumpIndex_X setup_name0 float_eval round_eval)

text \<open>
  The rpm field is rounded to 32 bits before it is tested: \<open>3000.0001\<close> reads as 3000
  and the line is accepted; \<open>1e-50\<close> reads as 0 and the line is refused.
\<close>

lemma rpm_field_is_rounded:
  "toFloat ''3000.0001'' = Val 3000 \<and>
   processCommand ''START,X,3000.0001,10,0'' \<lparr>millis = 0, micros = 0\<rparr>
      (setup_sketch power_on) =
     Serial_println (Str ''OK'')
       (startPump 0 (Val 3000) 10 False \<lparr>millis = 0, micros = 0\<rparr> (setup_sketch power_on)) \<and>
   toFloat ''1e-50'' = Val 0 \<and>
   processCommand ''START,X,1e-50,10,0'' \<lparr>millis = 0, micros = 0\<rparr> (setup_sketch power_on) =
     Serial_println (Str ''ERROR: RPM must be between -3000 and 3000'') (setup_sketch power_on)"
proof -
  have a: "toFloat ''3000.0001'' = Val 3000" and b: "toFloat ''1e-50'' = Val 0"
    by (simp_all add: parse_defs float_eval round_eval)
  have sa: "splitLoop ''START,X,3000.0001,10,0'' 0 0 [] =
      [''START'', ''X'', ''3000.0001'', ''10'', ''0'']"
    and sb: "splitLoop ''START,X,1e-50,10,0'' 0 0 [] = [''START'', ''X'', ''1e-50'', ''10'', ''0'']"
    by (simp_all add: line_defs)
  have ta: "trim ''START,X,3000.0001,10,0'' = ''START,X,3000.0001,10,0''"
    and tb: "trim ''START,X,1e-50,10,0'' = ''START,X,1e-50,10,0''"
    by (simp_all add: trim_def isspace_def)
  have i: "toInt ''10'' = 10" "toInt ''0'' = 0"
    by (simp_all add: parse_defs)
  show ?thesis
    by (simp add: a b processCommand_def handleStartCommand_def ta tb sa sb i Let_def startsWith_def
        charAt_def findPumpIndex_X setup_name0 float_eval)
qed

text \<open>
  Claim C3 fails on the line \<open>START,X,nan,10,0\<close>. The rpm field reads as the
  not-a-number value, for which both \<open>rpm == 0\<close> and \<open>abs(rpm) > 3000\<close> are false:
  the line is answered \<open>OK\<close> and channel X is started with a not-a-number rpm and
  interval, although the rpm does not satisfy \<open>0 < |r| \<le> 3000\<close>.
\<close>

theorem nan_rpm_accepted:
  "toFloat ''nan'' = NotANumber \<and>
   \<not> feq NotANumber (Val 0) \<and> \<not> fless (Val 3000) (abs_macro NotANumber) \<and>
   \<not> (fless (Val 0) (abs_macro NotANumber) \<and> fle (abs_macro NotANumber) (Val 3000)) \<and>
   processCommand ''START,X,nan,10,0'' \<lparr>millis = 0, micros = 0\<rparr> (setup_sketch power_on) =
     Serial_println (Str ''OK'')
       (startPump 0 NotANumber 10 False \<lparr>millis = 0, micros = 0\<rparr> (setup_sketch power_on)) \<and>
   last (serial (processCommand ''START,X,nan,10,0'' \<lparr>millis = 0, micros = 0\<rparr>
      (setup_sketch power_on))) = Println (Str ''OK'') \<and>
   \<not> isRunning (pumps (setup_sketch power_on) 0) \<and>
   pumps (processCommand ''START,X,nan,10,0'' \<lparr>millis = 0, micros = 0\<rparr>
      (setup_sketch power_on)) 0 =
     \<lparr>stepPin = 2, dirPin = 5, enablePin = 8, isRunning = True, rpm = NotANumber,
      duration = 10, continuous = False, startTime = 0, intervalMicros = NotANumber,
      lastStepTime = 0, name = CHR ''X''\<rparr>"
proof -
  have a: "toFloat ''nan'' = NotANumber"
    by (simp add: parse_defs)
  have s: "splitLoop ''START,X,nan,10,0'' 0 0 [] = [''START'', ''X'', ''nan'', ''10'', ''0'']"
    by (simp add: line_defs)
  have t: "trim ''START,X,nan,10,0'' = ''START,X,nan,10,0''"
    by (simp add: trim_def isspace_def)
  have i: "toInt ''10'' = 10" "toInt ''0'' = 0"
    by (simp_all add: parse_defs)
  have f: "\<not> feq NotANumber (Val 0)" "\<not> fless (Val 3000) (abs_macro NotANumber)"
    "\<not> fless (Val 0) (abs_macro NotANumber)" "abs_macro NotANumber = NotANumber"
    "\<not> fless (Val 3000) NotANumber" "\<not> fless (Val 0) NotANumber"
    by (simp_all add: float_eval)
  have v: "stepInterval NotANumber = NotANumber"
    by (simp add: stepInterval_def Let_def EFFECTIVE_STEPS_PER_REV_eq float_eval)
  have p: "processCommand ''START,X,nan,10,0'' \<lparr>millis = 0, micros = 0\<rparr>
      (setup_sketch power_on) =
     Serial_println (Str ''OK'')
       (startPump 0 NotANumber 10 False \<lparr>millis = 0, micros = 0\<rparr> (setup_sketch power_on))"
    by (simp add: processCommand_def handleStartCommand_def t s a i f Let_def startsWith_def
        charAt_def findPumpIndex_X setup_name0)
  show ?thesis
    by (simp add: a f p v startPump_pumps setup_pumps pumps_init_def mkPump_def pin_defs)
qed



section \<open>The tokenizer of START and the comma-separated fields\<close>

lemma fields_nonempty: "comma_fields s \<noteq> []"
  by (induction s) (auto split: list.splits)

lemma foldl_store: "length parts \<le> 5 \<Longrightarrow> foldl storePart parts fs = parts @ take (5 - length parts) fs"
proof (induction fs arbitrary: parts)
  case Nil
  then show ?case by simp
next
  case (Cons f fs)
  show ?case
  proof (cases "length parts < 5")
    case True
    then have "length (storePart parts f) \<le> 5" by (simp add: storePart_def)
    from Cons.IH [OF this] True show ?thesis
      by (simp add: storePart_def Suc_diff_Suc take_Cons')
  next
    case False
    with Cons.prems have "length parts = 5" by simp
    with Cons.IH [of parts] show ?thesis by (simp add: storePart_def)
  qed
qed

lemma substring_eq: "st \<le> i \<Longrightarrow> i \<le> length c \<Longrightarrow> substring c st i = take (i - st) (drop st c)"
  by (auto simp: substring_def min_def max_def)

lemma substring_Suc:
  "st \<le> i \<Longrightarrow> i < length c \<Longrightarrow> substring c st (Suc i) = substring c st i @ [c ! i]"
  by (simp add: substring_eq Suc_diff_le take_Suc_conv_app_nth)



lemma splitLoop_fields:
  "i \<le> length c \<Longrightarrow> st \<le> i \<Longrightarrow>
   splitLoop c i st parts =
     foldl storePart parts
       ((substring c st i @ hd (comma_fields (drop i c))) # tl (comma_fields (drop i c)))"
proof (induction c i st parts rule: splitLoop.induct)
  case (1 command i startIndex parts)
  show ?case
  proof (cases "i = length command")
    case True
    have "splitLoop command i startIndex parts =
        splitLoop command (i + 1) (i + 1) (storePart parts (substring command startIndex i))"
      using True by (subst splitLoop.simps) simp
    also have "\<dots> = storePart parts (substring command startIndex i)"
      using True by (subst splitLoop.simps) simp
    finally show ?thesis
      using True by simp
  next
    case False
    with "1.prems" have lt: "i < length command" by simp
    then have dr: "drop i command = command ! i # drop (Suc i) command"
      by (simp add: Cons_nth_drop_Suc)
    show ?thesis
    proof (cases "command ! i = CHR '',''")
      case True
      have "splitLoop command i startIndex parts =
          splitLoop command (i + 1) (i + 1) (storePart parts (substring command startIndex i))"
        using lt True by (simp add: splitLoop.simps [of command i] charAt_def)
      also have "\<dots> = foldl storePart (storePart parts (substring command startIndex i))
           ((substring command (i + 1) (i + 1) @ hd (comma_fields (drop (i + 1) command)))
              # tl (comma_fields (drop (i + 1) command)))"
        using "1.IH"(1) lt True "1.prems" by (simp add: charAt_def)
      also have "substring command (i + 1) (i + 1) = []"
        by (simp add: substring_def)
      finally show ?thesis
        using True fields_nonempty [of "drop (Suc i) command"] by (simp add: dr)
    next
      case False
      have "splitLoop command i startIndex parts = splitLoop command (i + 1) startIndex parts"
        using lt False by (simp add: splitLoop.simps [of command i] charAt_def)
      also have "\<dots> = foldl storePart parts
           ((substring command startIndex (i + 1) @ hd (comma_fields (drop (i + 1) command)))
              # tl (comma_fields (drop (i + 1) command)))"
        using "1.IH"(2) lt False "1.prems" by (simp add: charAt_def)
      finally show ?thesis
        using False lt "1.prems" fields_nonempty [of "drop (Suc i) command"]
        by (auto simp: dr substring_Suc split: list.splits)
    qed
  qed
qed

lemma splitLoop_take5: "splitLoop c 0 0 [] = take 5 (comma_fields c)"
proof -
  have "substring c 0 0 = []"
    by (simp add: substring_def)
  moreover have "hd (comma_fields c) # tl (comma_fields c) = comma_fields c"
    using fields_nonempty [of c] by simp
  ultimately have "splitLoop c 0 0 [] = foldl storePart [] (comma_fields c)"
    using splitLoop_fields [of 0 c 0 "[]"] by (simp del: foldl_Cons)
  then show ?thesis
    by (simp add: foldl_store)
qed

lemma fields_append_comma: "comma_fields (a @ CHR '','' # b) = comma_fields a @ comma_fields b"
  by (induction a) (auto split: list.splits simp: fields_nonempty)

text \<open>
  Claim C4, as stated, fails: the tokenizer stops counting at five fields
  (\<open>if (partIndex < 5)\<close>), so a START line with more than five fields passes the
  test \<open>partIndex != 5\<close>. The line \<open>START,X,50,10,0,junk\<close> has six fields, is
  answered \<open>OK\<close> and starts channel X.
\<close>

theorem six_fields_accepted:
  "length (comma_fields ''START,X,50,10,0,junk'') = 6 \<and>
   processCommand ''START,X,50,10,0,junk'' \<lparr>millis = 0, micros = 0\<rparr> (setup_sketch power_on) =
     Serial_println (Str ''OK'')
       (startPump 0 (Val 50) 10 False \<lparr>millis = 0, micros = 0\<rparr> (setup_sketch power_on)) \<and>
   isRunning (pumps (processCommand ''START,X,50,10,0,junk'' \<lparr>millis = 0, micros = 0\<rparr>
     (setup_sketch power_on)) 0) \<and>
   \<not> isRunning (pumps (setup_sketch power_on) 0)"
proof -
  have "processCommand ''START,X,50,10,0,junk'' \<lparr>millis = 0, micros = 0\<rparr>
      (setup_sketch power_on) =
     Serial_println (Str ''OK'')
       (startPump 0 (Val 50) 10 False \<lparr>millis = 0, micros = 0\<rparr> (setup_sketch power_on))"
    by (simp add: processCommand_def handleStartCommand_def line_defs parse_defs Let_def
        findPumpIndex_X setup_name0 float_eval round_eval)
  then show ?thesis
    by (simp add: startPump_pumps setup_pumps pumps_init_def mkPump_def)
qed

text \<open>
  Claim C4, amended. A START line with fewer than five comma-separated fields has one
  effect only, the line \<open>ERROR: Invalid START command format\<close>. A START line with five
  fields or more is never answered with that line: the tokenizer keeps its first five
  fields, and whatever follows the fifth field is ignored.
\<close>

theorem start_field_count:
  assumes "startsWith (trim cmd) ''START''"
  shows "(length (comma_fields (trim cmd)) < 5 \<longrightarrow>
            processCommand cmd clk s =
              Serial_println (Str ''ERROR: Invalid START command format'') s) \<and>
         (5 \<le> length (comma_fields (trim cmd)) \<longrightarrow>
            splitLoop (trim cmd) 0 0 [] = take 5 (comma_fields (trim cmd)) \<and>
            last (serial (processCommand cmd clk s)) \<noteq>
              Println (Str ''ERROR: Invalid START command format'')) \<and>
         (5 \<le> length (comma_fields c) \<longrightarrow>
            handleStartCommand (c @ CHR '','' # extra) clk s = handleStartCommand c clk s)"
proof -
  have cmd: "processCommand cmd clk s = handleStartCommand (trim cmd) clk s"
    using assms by (simp add: processCommand_def Let_def)
  have few: "handleStartCommand l clk s =
      Serial_println (Str ''ERROR: Invalid START command format'') s"
    if "length (comma_fields l) < 5" for l
    using that by (simp add: handleStartCommand_def splitLoop_take5)
  have many: "last (serial (handleStartCommand l clk s)) \<noteq>
      Println (Str ''ERROR: Invalid START command format'')"
    if "5 \<le> length (comma_fields l)" for l
    using that
    by (auto simp: handleStartCommand_def splitLoop_take5 Let_def split: option.splits)
  have extra: "handleStartCommand (c @ CHR '','' # extra) clk s = handleStartCommand c clk s"
    if "5 \<le> length (comma_fields c)"
    using that by (simp add: handleStartCommand_def splitLoop_take5 fields_append_comma)
  show ?thesis
    using few [of "trim cmd"] many [of "trim cmd"] extra
    by (simp add: cmd splitLoop_take5)
qed

theorem start_field_count_witness:
  "processCommand ''START,X,50'' \<lparr>millis = 0, micros = 0\<rparr> (setup_sketch power_on) =
     Serial_println (Str ''ERROR: Invalid START command format'') (setup_sketch power_on) \<and>
   splitLoop ''START,X,50,10,0,junk'' 0 0 [] = [''START'', ''X'', ''50'', ''10'', ''0''] \<and>
   handleStartCommand ''START,X,50,10,0,junk'' \<lparr>millis = 0, micros = 0\<rparr>
       (setup_sketch power_on) =
     handleStartCommand ''START,X,50,10,0'' \<lparr>millis = 0, micros = 0\<rparr> (setup_sketch power_on)"
proof -
  have t: "trim ''START,X,50'' = ''START,X,50''"
    "trim ''START,X,50,10,0,junk'' = ''START,X,50,10,0,junk''"
    by (simp_all add: trim_def isspace_def)
  show ?thesis
    using start_field_count [of "''START,X,50''" "\<lparr>millis = 0, micros = 0\<rparr>"
        "setup_sketch power_on" "''START,X,50,10,0''" "''junk''"]
      start_field_count [of "''START,X,50,10,0,junk''" "\<lparr>millis = 0, micros = 0\<rparr>"
        "setup_sketch power_on" "''START,X,50,10,0''" "''junk''"]
    by (simp add: t startsWith_def)
qed

section \<open>What a command and a scheduler iteration can do\<close>

lemma print_pumps [simp]: "pumps (Serial_print a s) = pumps s"
  by (simp add: Serial_print_def)

lemma print_pins [simp]: "pins (Serial_print a s) = pins s"
  by (simp add: Serial_print_def)

lemma print_gpio [simp]: "gpio (Serial_print a s) = gpio s"
  by (simp add: Serial_print_def)

lemma status_same:
  "pumps (handleStatusRequest s) = pumps s \<and> pins (handleStatusRequest s) = pins s \<and>
   gpio (handleStatusRequest s) = gpio s"
  by (simp add: handleStatusRequest_def Let_def)

text \<open>What a command line can do to the device.\<close>

lemma processCommand_cases:
  obtains (none) "pumps (processCommand cmd clk s) = pumps s"
      "pins (processCommand cmd clk s) = pins s" "gpio (processCommand cmd clk s) = gpio s"
  | (stop) i where "i < 4" "processCommand cmd clk s = Serial_println (Str ''OK'') (stopPump i s)"
  | (emergency) "processCommand cmd clk s = Serial_println (Str ''OK'') (fold stopPump indices s)"
  | (start) i r d c where "i < 4" "\<not> feq r (Val 0)" "\<not> fless (Val 3000) (abs_macro r)" "c = 0 \<longrightarrow> 0 < sint d"
      "startsWith (trim cmd) ''START''" "length (splitLoop (trim cmd) 0 0 []) = 5"
      "c = toInt (splitLoop (trim cmd) 0 0 [] ! 4)"
      "processCommand cmd clk s = Serial_println (Str ''OK'') (startPump i r d (c = 1) clk s)"
proof -
  consider (a) "startsWith (trim cmd) ''START''"
    | (b) "\<not> startsWith (trim cmd) ''START''" "startsWith (trim cmd) ''STOP''"
    | (c) "\<not> startsWith (trim cmd) ''START''" "\<not> startsWith (trim cmd) ''STOP''"
    by blast
  then show thesis
  proof cases
    case a
    then have cmd: "processCommand cmd clk s = handleStartCommand (trim cmd) clk s"
      by (simp add: processCommand_def Let_def)
    let ?parts = "splitLoop (trim cmd) 0 0 []"
    show ?thesis
    proof (cases "length ?parts = 5 \<and>
        findPumpIndex (charAt (?parts ! 1) 0) s \<noteq> None \<and>
        \<not> (feq (toFloat (?parts ! 2)) (Val 0) \<or>
           fless (Val 3000) (abs_macro (toFloat (?parts ! 2)))) \<and>
        \<not> (toInt (?parts ! 4) = 0 \<and> sint (toInt (?parts ! 3)) \<le> 0)")
      case True
      then obtain i where i: "findPumpIndex (charAt (?parts ! 1) 0) s = Some i" by auto
      then have "i < 4" by (simp add: findPumpIndex_Some)
      moreover have "processCommand cmd clk s =
          Serial_println (Str ''OK'')
            (startPump i (toFloat (?parts ! 2)) (toInt (?parts ! 3)) (toInt (?parts ! 4) = 1) clk s)"
        using True i by (auto simp: cmd handleStartCommand_def Let_def)
      ultimately show ?thesis
        using True a by (intro start [of i "toFloat (?parts ! 2)" "toInt (?parts ! 4)"
              "toInt (?parts ! 3)"]) auto
    next
      case False
      then have "pumps (processCommand cmd clk s) = pumps s \<and>
          pins (processCommand cmd clk s) = pins s \<and> gpio (processCommand cmd clk s) = gpio s"
        by (auto simp: cmd handleStartCommand_def Let_def split: option.splits)
      then show ?thesis using none by blast
    qed
  next
    case b
    then have cmd: "processCommand cmd clk s = handleStopCommand (trim cmd) s"
      by (simp add: processCommand_def Let_def)
    show ?thesis
    proof (cases "\<exists>i. processCommand cmd clk s = Serial_println (Str ''OK'') (stopPump i s) \<and> i < 4")
      case True
      then show ?thesis using stop by blast
    next
      case False
      then have "pumps (processCommand cmd clk s) = pumps s \<and>
          pins (processCommand cmd clk s) = pins s \<and> gpio (processCommand cmd clk s) = gpio s"
        by (auto simp: cmd handleStopCommand_def split: option.splits dest: findPumpIndex_Some)
      then show ?thesis using none by blast
    qed
  next
    case c
    then have "processCommand cmd clk s = handleEmergencyStop s \<or>
        processCommand cmd clk s = handleStatusRequest s \<or>
        processCommand cmd clk s = Serial_println (Str ''ERROR: Unknown command'') s"
      by (simp add: processCommand_def Let_def)
    then show ?thesis
      using none emergency status_same [of s]
      by (auto simp: handleEmergencyStop_def)
  qed
qed

text \<open>What one iteration of the scheduler does to a channel.\<close>

lemma updatePump_cases:
  obtains (idle) "updatePump clk i s = s"
  | (expired) "isRunning (pumps s i)" "updatePump clk i s = stopPump i s"
  | (pulse) "isRunning (pumps s i)"
      "pumps (updatePump clk i s) = (pumps s)(i := (pumps s i)\<lparr>lastStepTime := micros clk\<rparr>)"
      "pins (updatePump clk i s) = (pins s)(stepPin (pumps s i) := LOW)"
      "gpio (updatePump clk i s) = gpio s @ [(stepPin (pumps s i), HIGH), (stepPin (pumps s i), LOW)]"
      "serial (updatePump clk i s) = serial s"
proof (cases "isRunning (pumps s i)")
  case False
  then show ?thesis using idle by (simp add: updatePump_def)
next
  case True
  show ?thesis
  proof (cases "\<not> continuous (pumps s i) \<and>
      millis clk - startTime (pumps s i) \<ge> durationMillis (pumps s i)")
    case t: True
    then show ?thesis using expired True by (simp add: updatePump_def)
  next
    case f: False
    show ?thesis
    proof (cases "fle (intervalMicros (pumps s i))
        (of_ulong (micros clk - lastStepTime (pumps s i)))")
      case True
      with \<open>isRunning (pumps s i)\<close> f show ?thesis
        by (intro pulse) (auto simp: updatePump_def Let_def digitalWrite_def fun_eq_iff)
    next
      case False
      with \<open>isRunning (pumps s i)\<close> f show ?thesis
        by (intro idle) (auto simp: updatePump_def Let_def)
    qed
  qed
qed

section \<open>Invariants of the reachable states\<close>

lemma pumps_init_enable: "enablePin (pumps_init i) = 8"
  by (simp add: pumps_init_def mkPump_def pin_defs)

lemma pumps_init_pins_ne8: "stepPin (pumps_init i) \<noteq> 8 \<and> dirPin (pumps_init i) \<noteq> 8"
  by (simp add: pumps_init_def mkPump_def pin_defs)

lemma enable_inv_cong:
  "enable_inv s \<Longrightarrow> pumps s' = pumps s \<Longrightarrow> pins s' = pins s \<Longrightarrow> enable_inv s'"
  by (simp add: enable_inv_def wired_def)

lemma enable_inv_println: "enable_inv s \<Longrightarrow> enable_inv (Serial_println a s)"
  by (erule enable_inv_cong) simp_all

lemma enable_inv_setup: "enable_inv (setup_sketch power_on)"
  by (simp add: enable_inv_def wired_def setup_pumps setup_pins8 pumps_init_enable)

lemma enable_inv_stop: "enable_inv s \<Longrightarrow> enable_inv (stopPump i s)"
  by (auto simp: enable_inv_def wired_def stopPump_pumps stopPump_pins)

lemma enable_inv_fold_stop: "enable_inv s \<Longrightarrow> enable_inv (fold stopPump is s)"
  by (induction "is" arbitrary: s) (simp_all add: enable_inv_stop)

lemma enable_inv_start: "enable_inv s \<Longrightarrow> i < 4 \<Longrightarrow> enable_inv (startPump i r d c clk s)"
  by (auto simp: enable_inv_def wired_def startPump_pumps startPump_pins)

lemma enable_inv_process:
  assumes "enable_inv s" shows "enable_inv (processCommand cmd clk s)"
proof (cases cmd clk s rule: processCommand_cases)
  case none
  with assms show ?thesis by (auto elim: enable_inv_cong)
next
  case (stop i)
  with assms show ?thesis by (simp add: enable_inv_println enable_inv_stop)
next
  case emergency
  with assms show ?thesis by (simp add: enable_inv_println enable_inv_fold_stop)
next
  case (start i r d c)
  with assms show ?thesis by (simp add: enable_inv_println enable_inv_start)
qed

lemma enable_inv_updatePump: "enable_inv s \<Longrightarrow> enable_inv (updatePump clk i s)"
proof (cases clk i s rule: updatePump_cases)
  case idle
  assume "enable_inv s" with idle show ?thesis by simp
next
  case expired
  assume "enable_inv s" with expired show ?thesis by (simp add: enable_inv_stop)
next
  case pulse
  assume "enable_inv s"
  then have "stepPin (pumps s i) \<noteq> 8"
    using pumps_init_pins_ne8 [of i] by (simp add: enable_inv_def wired_def)
  with \<open>enable_inv s\<close> pulse show ?thesis
    by (auto simp: enable_inv_def wired_def)
qed

lemma enable_inv_updatePumps: "enable_inv s \<Longrightarrow> enable_inv (updatePumps clk s)"
  by (simp add: updatePumps_def indices_def enable_inv_updatePump)

lemma reachable_enable_inv: "reachable_with ok s \<Longrightarrow> enable_inv s"
  by (induction rule: reachable_with.induct)
     (simp_all add: enable_inv_setup enable_inv_process enable_inv_updatePumps)

lemma duration_inv_cong: "duration_inv s \<Longrightarrow> pumps s' = pumps s \<Longrightarrow> duration_inv s'"
  by (simp add: duration_inv_def)

lemma duration_inv_println: "duration_inv s \<Longrightarrow> duration_inv (Serial_println a s)"
  by (erule duration_inv_cong) simp

lemma duration_inv_setup: "duration_inv (setup_sketch power_on)"
  by (simp add: duration_inv_def setup_pumps pumps_init_def mkPump_def)

lemma duration_inv_stop: "duration_inv s \<Longrightarrow> duration_inv (stopPump i s)"
  by (auto simp: duration_inv_def stopPump_pumps)

lemma duration_inv_fold_stop: "duration_inv s \<Longrightarrow> duration_inv (fold stopPump is s)"
  by (induction "is" arbitrary: s) (simp_all add: duration_inv_stop)

lemma duration_inv_start:
  "duration_inv s \<Longrightarrow> c \<or> 0 < sint d \<Longrightarrow> duration_inv (startPump i r d c clk s)"
  by (auto simp: duration_inv_def startPump_pumps)

lemma duration_inv_process:
  assumes "duration_inv s" and "continuous_is_flag cmd"
  shows "duration_inv (processCommand cmd clk s)"
proof (cases cmd clk s rule: processCommand_cases)
  case none
  with assms(1) show ?thesis by (auto elim: duration_inv_cong)
next
  case (stop i)
  with assms(1) show ?thesis by (simp add: duration_inv_println duration_inv_stop)
next
  case emergency
  with assms(1) show ?thesis by (simp add: duration_inv_println duration_inv_fold_stop)
next
  case (start i r d c)
  from assms(2) start(5,6,7) have "c = 0 \<or> c = 1"
    by (simp add: continuous_is_flag_def Let_def)
  with start(4) have "c = 1 \<or> 0 < sint d" by auto
  with assms(1) start(8) show ?thesis
    by (auto simp: duration_inv_println duration_inv_start)
qed

lemma duration_inv_updatePump: "duration_inv s \<Longrightarrow> duration_inv (updatePump clk i s)"
proof (cases clk i s rule: updatePump_cases)
  case idle
  assume "duration_inv s" with idle show ?thesis by simp
next
  case expired
  assume "duration_inv s" with expired show ?thesis by (simp add: duration_inv_stop)
next
  case pulse
  assume "duration_inv s"
  with pulse show ?thesis
    by (auto simp: duration_inv_def)
qed

lemma duration_inv_updatePumps: "duration_inv s \<Longrightarrow> duration_inv (updatePumps clk s)"
  by (simp add: updatePumps_def indices_def duration_inv_updatePump)

lemma reachable_duration_inv: "reachable_with continuous_is_flag s \<Longrightarrow> duration_inv s"
  by (induction rule: reachable_with.induct)
     (simp_all add: duration_inv_setup duration_inv_process duration_inv_updatePumps)

lemmas run_defs =
  processCommand_def handleStartCommand_def handleStopCommand_def line_defs parse_defs Let_def
  findPumpIndex_def indices_def startPump_pumps startPump_pins stopPump_pumps stopPump_pins
  setup_pumps setup_pins8 pumps_init_def mkPump_def pin_defs float_eval round_eval

section \<open>Emergency stop\<close>

lemma fold_stopPump_wiring:
  "enablePin (pumps (fold stopPump is s) i) = enablePin (pumps s i)"
  by (induction "is" arbitrary: s) (simp_all add: stopPump_pumps)

lemma fold_stopPump_pins:
  "pins (fold stopPump is s) p =
     (if \<exists>i\<in>set is. isRunning (pumps s i) \<and> enablePin (pumps s i) = p then HIGH
      else pins s p)"
proof (induction "is" arbitrary: s)
  case Nil
  show ?case by simp
next
  case (Cons a "is")
  show ?case
    by (auto simp: Cons stopPump_pumps stopPump_pins)
qed

lemma fold_stopPump_gpio:
  "distinct is \<Longrightarrow>
   gpio (fold stopPump is s) =
     gpio s @ concat (map (\<lambda>i. if isRunning (pumps s i) then [(enablePin (pumps s i), HIGH)]
                                 else []) is)"
proof (induction "is" arbitrary: s)
  case Nil
  show ?case by simp
next
  case (Cons a "is")
  have same: "map (\<lambda>i. if isRunning (pumps (stopPump a s) i)
                         then [(enablePin (pumps (stopPump a s) i), HIGH)] else []) is =
      map (\<lambda>i. if isRunning (pumps s i) then [(enablePin (pumps s i), HIGH)] else []) is"
    using Cons.prems by (intro map_cong) (auto simp: stopPump_pumps)
  from Cons.prems have "distinct is" by simp
  then show ?case
    by (simp add: Cons.IH same stopPump_gpio)
qed

text \<open>
  Claim C5. After an EMERGENCY command, whatever the state before it (any channels
  running or stopped): the running flag of every channel is false; the pin writes of the
  command are, for the channels X, Y, Z, A in this order, one write of high to the enable
  pin of each channel that was running, and nothing else; the enable output of every
  channel that was running is released, and in a state the device can reach the enable
  output of every channel is released; the configuration of the channels other than the
  running flags is untouched; the command is answered \<open>OK\<close>, and a STATUS command that
  follows reports 0 for X, Y, Z and A.
\<close>

theorem emergency_stops_every_channel:
  "(\<forall>i<4. \<not> isRunning (pumps (processCommand ''EMERGENCY'' clk s) i)) \<and>
   (\<forall>i. pumps (processCommand ''EMERGENCY'' clk s) i =
          (if i < 4 \<and> isRunning (pumps s i) then (pumps s i)\<lparr>isRunning := False\<rparr>
           else pumps s i)) \<and>
   gpio (processCommand ''EMERGENCY'' clk s) =
     gpio s @ concat (map (\<lambda>i. if isRunning (pumps s i) then [(enablePin (pumps s i), HIGH)]
                                 else []) [0, 1, 2, 3]) \<and>
   (\<forall>i<4. isRunning (pumps s i) \<longrightarrow> \<not> enabled (processCommand ''EMERGENCY'' clk s) i) \<and>
   (reachable s \<longrightarrow> (\<forall>i<4. \<not> enabled (processCommand ''EMERGENCY'' clk s) i)) \<and>
   last (serial (processCommand ''EMERGENCY'' clk s)) = Println (Str ''OK'') \<and>
   serial (processCommand ''STATUS'' clk' (processCommand ''EMERGENCY'' clk s)) =
     serial (processCommand ''EMERGENCY'' clk s) @
       [Print (Str [CHR ''{'', CHR 0x22, CHR ''X'', CHR 0x22, CHR '':'']), Print (Num 0),
        Print (Str [CHR '','', CHR 0x22, CHR ''Y'', CHR 0x22, CHR '':'']), Print (Num 0),
        Print (Str [CHR '','', CHR 0x22, CHR ''Z'', CHR 0x22, CHR '':'']), Print (Num 0),
        Print (Str [CHR '','', CHR 0x22, CHR ''A'', CHR 0x22, CHR '':'']), Print (Num 0),
        Println (Str ''}'')]"
proof -
  let ?e = "processCommand ''EMERGENCY'' clk s"
  have cmd: "?e = handleEmergencyStop s"
    by (simp add: processCommand_def trim_def startsWith_def isspace_def)
  have stopped: "\<not> isRunning (pumps ?e i)" if "i < 4" for i
    using that by (simp add: cmd handleEmergencyStop_def fold_stopPump_running indices_lt)
  have config: "pumps (fold stopPump is s) i =
      (if i \<in> set is \<and> isRunning (pumps s i) then (pumps s i)\<lparr>isRunning := False\<rparr>
       else pumps s i)" for i "is"
    by (induction "is" arbitrary: s) (auto simp: stopPump_pumps)
  have pumps_e: "pumps ?e i =
      (if i < 4 \<and> isRunning (pumps s i) then (pumps s i)\<lparr>isRunning := False\<rparr>
       else pumps s i)" for i
    by (simp add: cmd handleEmergencyStop_def config indices_lt)
  have writes: "gpio ?e =
     gpio s @ concat (map (\<lambda>i. if isRunning (pumps s i) then [(enablePin (pumps s i), HIGH)]
                                 else []) [0, 1, 2, 3])"
    using fold_stopPump_gpio [of indices s]
    by (simp add: cmd handleEmergencyStop_def indices_def)
  have pin: "pins ?e p =
     (if \<exists>i<4. isRunning (pumps s i) \<and> enablePin (pumps s i) = p then HIGH else pins s p)"
    for p
    by (simp add: cmd handleEmergencyStop_def fold_stopPump_pins indices_lt Bex_def)
  have wiring: "enablePin (pumps ?e i) = enablePin (pumps s i)" for i
    by (simp add: cmd handleEmergencyStop_def fold_stopPump_wiring)
  have released: "\<not> enabled ?e i" if "i < 4" "isRunning (pumps s i)" for i
    using that unfolding enabled_def wiring pin by auto
  have all_released: "\<not> enabled ?e i" if r: "reachable s" and i: "i < 4" for i
  proof -
    from r have inv: "enable_inv s"
      unfolding reachable_def by (rule reachable_enable_inv)
    then have e8: "enablePin (pumps s j) = 8" for j
      by (simp add: enable_inv_def wired_def)
    show ?thesis
    proof (cases "\<exists>j<4. isRunning (pumps s j)")
      case True
      then show ?thesis
        unfolding enabled_def wiring pin by (auto simp: e8)
    next
      case False
      with inv have "pins s 8 \<noteq> LOW"
        by (auto simp: enable_inv_def)
      with False show ?thesis
        unfolding enabled_def wiring pin by (auto simp: e8)
    qed
  qed
  have status: "processCommand ''STATUS'' clk' t = handleStatusRequest t" for t
    by (simp add: processCommand_def trim_def startsWith_def isspace_def)
  have report: "serial (handleStatusRequest ?e) =
     serial ?e @
       [Print (Str [CHR ''{'', CHR 0x22, CHR ''X'', CHR 0x22, CHR '':'']), Print (Num 0),
        Print (Str [CHR '','', CHR 0x22, CHR ''Y'', CHR 0x22, CHR '':'']), Print (Num 0),
        Print (Str [CHR '','', CHR 0x22, CHR ''Z'', CHR 0x22, CHR '':'']), Print (Num 0),
        Print (Str [CHR '','', CHR 0x22, CHR ''A'', CHR 0x22, CHR '':'']), Print (Num 0),
        Println (Str ''}'')]"
    using stopped [of 0] stopped [of 1] stopped [of 2] stopped [of 3]
    by (simp add: handleStatusRequest_def Let_def Serial_print_def Serial_println_def
        running_flag_def)
  have answer: "last (serial ?e) = Println (Str ''OK'')"
    by (simp add: cmd handleEmergencyStop_def)
  from stopped have c1: "\<forall>i<4. \<not> isRunning (pumps ?e i)" by blast
  from pumps_e have c2: "\<forall>i. pumps ?e i =
      (if i < 4 \<and> isRunning (pumps s i) then (pumps s i)\<lparr>isRunning := False\<rparr>
       else pumps s i)" by blast
  from released have c4: "\<forall>i<4. isRunning (pumps s i) \<longrightarrow> \<not> enabled ?e i" by blast
  from all_released have c5: "reachable s \<longrightarrow> (\<forall>i<4. \<not> enabled ?e i)" by blast
  from report have c7: "serial (processCommand ''STATUS'' clk' ?e) =
     serial ?e @
       [Print (Str [CHR ''{'', CHR 0x22, CHR ''X'', CHR 0x22, CHR '':'']), Print (Num 0),
        Print (Str [CHR '','', CHR 0x22, CHR ''Y'', CHR 0x22, CHR '':'']), Print (Num 0),
        Print (Str [CHR '','', CHR 0x22, CHR ''Z'', CHR 0x22, CHR '':'']), Print (Num 0),
        Print (Str [CHR '','', CHR 0x22, CHR ''A'', CHR 0x22, CHR '':'']), Print (Num 0),
        Println (Str ''}'')]"
    by (simp only: status)
  from c1 c2 writes c4 c5 answer c7 show ?thesis by (intro conjI)
qed

theorem emergency_stops_every_channel_witness:
  "reachable
     (processCommand ''START,Z,100,0,1'' \<lparr>millis = 5, micros = 5000\<rparr>
       (processCommand ''START,X,50,10,0'' \<lparr>millis = 0, micros = 0\<rparr> (setup_sketch power_on))) \<and>
   isRunning (pumps
     (processCommand ''START,Z,100,0,1'' \<lparr>millis = 5, micros = 5000\<rparr>
       (processCommand ''START,X,50,10,0'' \<lparr>millis = 0, micros = 0\<rparr> (setup_sketch power_on))) 0) \<and>
   \<not> isRunning (pumps
     (processCommand ''START,Z,100,0,1'' \<lparr>millis = 5, micros = 5000\<rparr>
       (processCommand ''START,X,50,10,0'' \<lparr>millis = 0, micros = 0\<rparr> (setup_sketch power_on))) 1) \<and>
   isRunning (pumps
     (processCommand ''START,Z,100,0,1'' \<lparr>millis = 5, micros = 5000\<rparr>
       (processCommand ''START,X,50,10,0'' \<lparr>millis = 0, micros = 0\<rparr> (setup_sketch power_on))) 2) \<and>
   enabled
     (processCommand ''START,Z,100,0,1'' \<lparr>millis = 5, micros = 5000\<rparr>
       (processCommand ''START,X,50,10,0'' \<lparr>millis = 0, micros = 0\<rparr> (setup_sketch power_on))) 1 \<and>
   \<not> isRunning (pumps (processCommand ''EMERGENCY'' \<lparr>millis = 9, micros = 9000\<rparr>
     (processCommand ''START,Z,100,0,1'' \<lparr>millis = 5, micros = 5000\<rparr>
       (processCommand ''START,X,50,10,0'' \<lparr>millis = 0, micros = 0\<rparr>
         (setup_sketch power_on)))) 0) \<and>
   \<not> isRunning (pumps (processCommand ''EMERGENCY'' \<lparr>millis = 9, micros = 9000\<rparr>
     (processCommand ''START,Z,100,0,1'' \<lparr>millis = 5, micros = 5000\<rparr>
       (processCommand ''START,X,50,10,0'' \<lparr>millis = 0, micros = 0\<rparr>
         (setup_sketch power_on)))) 1) \<and>
   \<not> isRunning (pumps (processCommand ''EMERGENCY'' \<lparr>millis = 9, micros = 9000\<rparr>
     (processCommand ''START,Z,100,0,1'' \<lparr>millis = 5, micros = 5000\<rparr>
       (processCommand ''START,X,50,10,0'' \<lparr>millis = 0, micros = 0\<rparr>
         (setup_sketch power_on)))) 2) \<and>
   \<not> isRunning (pumps (processCommand ''EMERGENCY'' \<lparr>millis = 9, micros = 9000\<rparr>
     (processCommand ''START,Z,100,0,1'' \<lparr>millis = 5, micros = 5000\<rparr>
       (processCommand ''START,X,50,10,0'' \<lparr>millis = 0, micros = 0\<rparr>
         (setup_sketch power_on)))) 3) \<and>
   \<not> enabled (processCommand ''EMERGENCY'' \<lparr>millis = 9, micros = 9000\<rparr>
     (processCommand ''START,Z,100,0,1'' \<lparr>millis = 5, micros = 5000\<rparr>
       (processCommand ''START,X,50,10,0'' \<lparr>millis = 0, micros = 0\<rparr>
         (setup_sketch power_on)))) 0 \<and>
   \<not> enabled (processCommand ''EMERGENCY'' \<lparr>millis = 9, micros = 9000\<rparr>
     (processCommand ''START,Z,100,0,1'' \<lparr>millis = 5, micros = 5000\<rparr>
       (processCommand ''START,X,50,10,0'' \<lparr>millis = 0, micros = 0\<rparr>
         (setup_sketch power_on)))) 1 \<and>
   \<not> enabled (processCommand ''EMERGENCY'' \<lparr>millis = 9, micros = 9000\<rparr>
     (processCommand ''START,Z,100,0,1'' \<lparr>millis = 5, micros = 5000\<rparr>
       (processCommand ''START,X,50,10,0'' \<lparr>millis = 0, micros = 0\<rparr>
         (setup_sketch power_on)))) 2 \<and>
   \<not> enabled (processCommand ''EMERGENCY'' \<lparr>millis = 9, micros = 9000\<rparr>
     (processCommand ''START,Z,100,0,1'' \<lparr>millis = 5, micros = 5000\<rparr>
       (processCommand ''START,X,50,10,0'' \<lparr>millis = 0, micros = 0\<rparr>
         (setup_sketch power_on)))) 3 \<and>
   gpio (processCommand ''EMERGENCY'' \<lparr>millis = 9, micros = 9000\<rparr>
     (processCommand ''START,Z,100,0,1'' \<lparr>millis = 5, micros = 5000\<rparr>
       (processCommand ''START,X,50,10,0'' \<lparr>millis = 0, micros = 0\<rparr>
         (setup_sketch power_on)))) =
     gpio (processCommand ''START,Z,100,0,1'' \<lparr>millis = 5, micros = 5000\<rparr>
       (processCommand ''START,X,50,10,0'' \<lparr>millis = 0, micros = 0\<rparr> (setup_sketch power_on)))
       @ [(8, HIGH), (8, HIGH)]"
proof -
  let ?s = "processCommand ''START,Z,100,0,1'' \<lparr>millis = 5, micros = 5000\<rparr>
       (processCommand ''START,X,50,10,0'' \<lparr>millis = 0, micros = 0\<rparr> (setup_sketch power_on))"
  let ?e = "processCommand ''EMERGENCY'' \<lparr>millis = 9, micros = 9000\<rparr> ?s"
  have r: "reachable ?s"
    unfolding reachable_def by (intro reachable_with.command reachable_with.boot TrueI)
  have p: "isRunning (pumps ?s 0)" "\<not> isRunning (pumps ?s 1)" "isRunning (pumps ?s 2)"
    "\<not> isRunning (pumps ?s 3)" "enablePin (pumps ?s 0) = 8" "enablePin (pumps ?s 2) = 8"
    "enabled ?s 1" "\<not> isRunning (pumps ?s (Suc 0))"
    by (simp_all add: enabled_def run_defs)
  note t = emergency_stops_every_channel [of "\<lparr>millis = 9, micros = 9000\<rparr>" ?s
      "\<lparr>millis = 10, micros = 10000\<rparr>"]
  from t have a: "\<forall>i<4. \<not> isRunning (pumps ?e i)"
    by (rule conjunct1)
  from t r have b: "\<forall>i<4. \<not> enabled ?e i"
    by blast
  from t have g: "gpio ?e = gpio ?s @ [(8, HIGH), (8, HIGH)]"
    by (simp add: p)
  from a have a4: "\<not> isRunning (pumps ?e 0)" "\<not> isRunning (pumps ?e 1)"
    "\<not> isRunning (pumps ?e 2)" "\<not> isRunning (pumps ?e 3)"
    by simp_all
  from b have b4: "\<not> enabled ?e 0" "\<not> enabled ?e 1" "\<not> enabled ?e 2" "\<not> enabled ?e 3"
    by simp_all
  from r p(1-7) a4 b4 g show ?thesis
    by (intro conjI)
qed

section \<open>The enable output and the running flags\<close>

text \<open>
  Claim C2, as stated, fails: the four channels share enable pin 8. After
  \<open>START,X,50,10,0\<close>, \<open>START,Y,50,10,0\<close> and \<open>STOP,X\<close>, and still after the next
  scheduler iteration, channel Y is flagged running while its enable output is
  deasserted: deactivating X has disabled Y.
\<close>

theorem running_channel_disabled:
  "reachable
     (updatePumps \<lparr>millis = 3001, micros = 3001000\<rparr>
       (processCommand ''STOP,X'' \<lparr>millis = 3000, micros = 3000000\<rparr>
         (processCommand ''START,Y,50,10,0'' \<lparr>millis = 2000, micros = 2000000\<rparr>
           (processCommand ''START,X,50,10,0'' \<lparr>millis = 1000, micros = 1000000\<rparr>
             (setup_sketch power_on))))) \<and>
   isRunning (pumps
     (updatePumps \<lparr>millis = 3001, micros = 3001000\<rparr>
       (processCommand ''STOP,X'' \<lparr>millis = 3000, micros = 3000000\<rparr>
         (processCommand ''START,Y,50,10,0'' \<lparr>millis = 2000, micros = 2000000\<rparr>
           (processCommand ''START,X,50,10,0'' \<lparr>millis = 1000, micros = 1000000\<rparr>
             (setup_sketch power_on))))) 1) \<and>
   \<not> enabled
     (updatePumps \<lparr>millis = 3001, micros = 3001000\<rparr>
       (processCommand ''STOP,X'' \<lparr>millis = 3000, micros = 3000000\<rparr>
         (processCommand ''START,Y,50,10,0'' \<lparr>millis = 2000, micros = 2000000\<rparr>
           (processCommand ''START,X,50,10,0'' \<lparr>millis = 1000, micros = 1000000\<rparr>
             (setup_sketch power_on))))) 1"
proof -
  let ?s = "processCommand ''STOP,X'' \<lparr>millis = 3000, micros = 3000000\<rparr>
         (processCommand ''START,Y,50,10,0'' \<lparr>millis = 2000, micros = 2000000\<rparr>
           (processCommand ''START,X,50,10,0'' \<lparr>millis = 1000, micros = 1000000\<rparr>
             (setup_sketch power_on)))"
  have r: "reachable (updatePumps \<lparr>millis = 3001, micros = 3001000\<rparr> ?s)"
    unfolding reachable_def
    by (intro reachable_with.schedule reachable_with.command reachable_with.boot TrueI)
  have p: "isRunning (pumps ?s 1)" "\<not> isRunning (pumps ?s 0)" "\<not> isRunning (pumps ?s 2)"
    "\<not> isRunning (pumps ?s 3)" "pins ?s 8" "enablePin (pumps ?s 1) = 8"
    "stepPin (pumps ?s 1) = 3" "\<not> continuous (pumps ?s 1)" "duration (pumps ?s 1) = 10"
    "startTime (pumps ?s 1) = 2000"
    by (simp_all add: run_defs)
  have u: "isRunning (pumps (updatePumps \<lparr>millis = 3001, micros = 3001000\<rparr> ?s) 1) \<and>
      pins (updatePumps \<lparr>millis = 3001, micros = 3001000\<rparr> ?s) 8 \<and>
      enablePin (pumps (updatePumps \<lparr>millis = 3001, micros = 3001000\<rparr> ?s) 1) = 8"
    using p
    by (simp add: updatePumps_def indices_def updatePump_def Let_def durationMillis_def
        digitalWrite_def)
  with r show ?thesis
    by (simp add: enabled_def)
qed

text \<open>
  Claim C2, amended. In every reachable state all four channels have enable pin 8; if
  the enable output is asserted then the running flag of at least one channel is true
  (so it is deasserted when no channel runs); activating a channel asserts it, and
  deactivating a running channel deasserts it, for all four channels alike.
\<close>

theorem shared_enable:
  assumes "reachable s"
  shows "(\<forall>i<4. enablePin (pumps s i) = 8) \<and>
         ((\<exists>i<4. enabled s i) \<longrightarrow> (\<exists>j<4. isRunning (pumps s j))) \<and>
         (\<forall>i<4. \<forall>j<4. enabled (startPump i r d c clk s) j) \<and>
         (\<forall>i<4. isRunning (pumps s i) \<longrightarrow> (\<forall>j<4. \<not> enabled (stopPump i s) j))"
proof -
  from assms have inv: "enable_inv s"
    unfolding reachable_def by (rule reachable_enable_inv)
  then have pin: "enablePin (pumps s i) = 8" for i
    by (simp add: enable_inv_def wired_def)
  from inv have "(\<exists>i<4. enabled s i) \<longrightarrow> (\<exists>j<4. isRunning (pumps s j))"
    by (auto simp: enable_inv_def enabled_def pin)
  moreover have "enabled (startPump i r d c clk s) j" for i j
    by (simp add: enabled_def startPump_pumps startPump_pins pin)
  moreover have "\<not> enabled (stopPump i s) j" if "isRunning (pumps s i)" for i j
    using that by (simp add: enabled_def stopPump_pumps stopPump_pins pin)
  ultimately show ?thesis
    using pin by blast
qed

theorem shared_enable_witness:
  "reachable (processCommand ''START,X,50,10,0'' \<lparr>millis = 1000, micros = 1000000\<rparr>
     (setup_sketch power_on)) \<and>
   enabled (processCommand ''START,X,50,10,0'' \<lparr>millis = 1000, micros = 1000000\<rparr>
     (setup_sketch power_on)) 0 \<and>
   enabled (processCommand ''START,X,50,10,0'' \<lparr>millis = 1000, micros = 1000000\<rparr>
     (setup_sketch power_on)) 1 \<and>
   (\<exists>j<4. isRunning (pumps (processCommand ''START,X,50,10,0''
      \<lparr>millis = 1000, micros = 1000000\<rparr> (setup_sketch power_on)) j)) \<and>
   \<not> isRunning (pumps (processCommand ''START,X,50,10,0''
      \<lparr>millis = 1000, micros = 1000000\<rparr> (setup_sketch power_on)) 1)"
proof -
  have r: "reachable (processCommand ''START,X,50,10,0'' \<lparr>millis = 1000, micros = 1000000\<rparr>
     (setup_sketch power_on))"
    unfolding reachable_def by (intro reachable_with.command reachable_with.boot TrueI)
  have e: "enabled (processCommand ''START,X,50,10,0'' \<lparr>millis = 1000, micros = 1000000\<rparr>
     (setup_sketch power_on)) 0"
    "enabled (processCommand ''START,X,50,10,0'' \<lparr>millis = 1000, micros = 1000000\<rparr>
     (setup_sketch power_on)) 1"
    "\<not> isRunning (pumps (processCommand ''START,X,50,10,0''
      \<lparr>millis = 1000, micros = 1000000\<rparr> (setup_sketch power_on)) 1)"
    by (simp_all add: enabled_def run_defs)
  from e(1) have "\<exists>i<4. enabled (processCommand ''START,X,50,10,0''
      \<lparr>millis = 1000, micros = 1000000\<rparr> (setup_sketch power_on)) i"
    by (intro exI [of _ 0]) simp
  with shared_enable [OF r] r e show ?thesis by blast
qed

section \<open>Duration of a timed run\<close>

text \<open>
  Claim C9, as stated, fails in the first reachable state: the initialiser of \<open>pumps\<close>
  gives every channel \<open>continuous = false\<close> and \<open>duration = 0\<close>.
\<close>

theorem initial_duration_zero:
  "reachable (setup_sketch power_on) \<and>
   \<not> continuous (pumps (setup_sketch power_on) 0) \<and>
   \<not> 0 < sint (duration (pumps (setup_sketch power_on) 0))"
  unfolding reachable_def
  by (simp add: reachable_with.boot setup_pumps pumps_init_def mkPump_def)

text \<open>
  Claim C9, amended. In every state reached by scheduler iterations and by command lines
  whose \<open>continuous\<close> field, when they are START lines, reads as 0 or 1: a channel whose
  continuous flag is false and which is running, or has been started before (its rpm is
  not the initial 0), has a strictly positive stored duration.
\<close>

theorem timed_channel_duration_positive:
  assumes "reachable_with continuous_is_flag s"
    and "\<not> continuous (pumps s i)"
    and "isRunning (pumps s i) \<or> rpm (pumps s i) \<noteq> Val 0"
  shows "0 < sint (duration (pumps s i))"
  using reachable_duration_inv [OF assms(1)] assms(2,3)
  by (auto simp: duration_inv_def)

theorem timed_channel_duration_positive_witness:
  "reachable_with continuous_is_flag
     (processCommand ''START,X,50,10,0'' \<lparr>millis = 1000, micros = 1000000\<rparr>
       (setup_sketch power_on)) \<and>
   \<not> continuous (pumps (processCommand ''START,X,50,10,0''
      \<lparr>millis = 1000, micros = 1000000\<rparr> (setup_sketch power_on)) 0) \<and>
   isRunning (pumps (processCommand ''START,X,50,10,0''
      \<lparr>millis = 1000, micros = 1000000\<rparr> (setup_sketch power_on)) 0) \<and>
   0 < sint (duration (pumps (processCommand ''START,X,50,10,0''
      \<lparr>millis = 1000, micros = 1000000\<rparr> (setup_sketch power_on)) 0))"
proof -
  have ok: "continuous_is_flag ''START,X,50,10,0''"
    by (simp add: continuous_is_flag_def line_defs parse_defs)
  have r: "reachable_with continuous_is_flag
     (processCommand ''START,X,50,10,0'' \<lparr>millis = 1000, micros = 1000000\<rparr>
       (setup_sketch power_on))"
    by (intro reachable_with.command reachable_with.boot ok)
  have p: "\<not> continuous (pumps (processCommand ''START,X,50,10,0''
      \<lparr>millis = 1000, micros = 1000000\<rparr> (setup_sketch power_on)) 0)"
    "isRunning (pumps (processCommand ''START,X,50,10,0''
      \<lparr>millis = 1000, micros = 1000000\<rparr> (setup_sketch power_on)) 0)"
    by (simp_all add: run_defs)
  from timed_channel_duration_positive [OF r p(1)] r p show ?thesis by blast
qed

lemma updatePump_other: "j \<noteq> i \<Longrightarrow> pumps (updatePump clk i s) j = pumps s j"
  by (cases clk i s rule: updatePump_cases) (simp_all add: stopPump_pumps)

section \<open>The scheduler and the end of a timed run\<close>

text \<open>
  Claim C1 says that the scheduler deactivates a timed channel once the elapsed
  milliseconds reach \<open>durationSeconds * 1000\<close>. The code compares with
  \<open>(unsigned long)(pump->duration * 1000)\<close>, a product of two \<open>int\<close>. After
  \<open>START,X,50,60,0\<close> at 1000 ms, the scheduler iteration at 61000 ms finds 60000 ms
  elapsed, but the threshold is 4294961760 (60000 wrapped to -5536, sign-extended), and
  channel X keeps running.
\<close>

theorem sixty_second_run_keeps_running:
  "\<not> continuous (pumps (processCommand ''START,X,50,60,0'' \<lparr>millis = 1000, micros = 1000000\<rparr>
      (setup_sketch power_on)) 0) \<and>
   sint (duration (pumps (processCommand ''START,X,50,60,0'' \<lparr>millis = 1000, micros = 1000000\<rparr>
      (setup_sketch power_on)) 0)) = 60 \<and>
   unat ((61000 :: c_ulong) - startTime (pumps (processCommand ''START,X,50,60,0''
      \<lparr>millis = 1000, micros = 1000000\<rparr> (setup_sketch power_on)) 0)) = 60 * 1000 \<and>
   durationMillis (pumps (processCommand ''START,X,50,60,0'' \<lparr>millis = 1000, micros = 1000000\<rparr>
      (setup_sketch power_on)) 0) = 4294961760 \<and>
   isRunning (pumps (updatePumps \<lparr>millis = 61000, micros = 61000000\<rparr>
      (processCommand ''START,X,50,60,0'' \<lparr>millis = 1000, micros = 1000000\<rparr>
        (setup_sketch power_on))) 0)"
proof -
  let ?s = "processCommand ''START,X,50,60,0'' \<lparr>millis = 1000, micros = 1000000\<rparr>
      (setup_sketch power_on)"
  have s: "?s = Serial_println (Str ''OK'')
      (startPump 0 (Val 50) 60 False \<lparr>millis = 1000, micros = 1000000\<rparr> (setup_sketch power_on))"
    by (simp add: processCommand_def handleStartCommand_def line_defs parse_defs Let_def
        findPumpIndex_X setup_name0 float_eval round_eval)
  have v: "stepInterval (Val 50) = Val (12288001 / 32768)" "abs_macro (Val 50) = Val 50"
    by (simp_all add: stepInterval_def Let_def EFFECTIVE_STEPS_PER_REV_eq float_eval round_eval)
  have p: "pumps ?s = pumps_init (0 := (pumps_init 0)
        \<lparr>intervalMicros := Val (12288001 / 32768), rpm := Val 50, duration := 60, continuous := False,
         isRunning := True, startTime := 1000, lastStepTime := 1000000\<rparr>)"
    by (simp add: s startPump_pumps setup_pumps v)
  have u0: "isRunning (pumps (updatePump \<lparr>millis = 61000, micros = 61000000\<rparr> 0 ?s) 0)"
    by (simp add: updatePump_def Let_def p durationMillis_def digitalWrite_def)
  have "isRunning (pumps (updatePumps \<lparr>millis = 61000, micros = 61000000\<rparr> ?s) 0)"
    using u0 by (simp add: updatePumps_def indices_def updatePump_other)
  then show ?thesis
    by (simp add: p durationMillis_def)
qed

lemma durationMillis_small:
  assumes "0 \<le> sint (duration p)" and "sint (duration p) \<le> 32"
  shows "uint (durationMillis p) = sint (duration p) * 1000"
proof -
  let ?d = "sint (duration p)"
  have b: "- (2 ^ 15) \<le> ?d * 1000" "?d * 1000 < 2 ^ 15"
    using assms by simp_all
  have "sint (duration p * 1000) = signed_take_bit 15 (?d * 1000)"
    by (simp add: sint_word_ariths)
  also have "\<dots> = ?d * 1000"
    using b by (simp add: signed_take_bit_int_eq_self)
  finally have eq: "sint (duration p * 1000) = ?d * 1000" .
  have "durationMillis p = word_of_int (sint (duration p * 1000))"
    unfolding durationMillis_def by (rule scast_eq)
  then have "durationMillis p = word_of_int (?d * 1000)"
    by (simp only: eq)
  then have "uint (durationMillis p) = (?d * 1000) mod 2 ^ 32"
    by (simp only: uint_word_of_int) simp
  then show ?thesis
    using assms by simp
qed

text \<open>
  For a duration of 0 to 32 seconds the product does not overflow: the scheduler then
  deactivates a running timed channel exactly when the elapsed milliseconds have reached
  \<open>duration * 1000\<close>, and leaves it running before.
\<close>

theorem auto_stop_short_runs:
  assumes "isRunning (pumps s i)" and "\<not> continuous (pumps s i)"
    and "0 \<le> sint (duration (pumps s i))" and "sint (duration (pumps s i)) \<le> 32"
  shows "(sint (duration (pumps s i)) * 1000 \<le> uint (millis clk - startTime (pumps s i)) \<longrightarrow>
            updatePump clk i s = stopPump i s) \<and>
         (uint (millis clk - startTime (pumps s i)) < sint (duration (pumps s i)) * 1000 \<longrightarrow>
            isRunning (pumps (updatePump clk i s) i))"
proof -
  have le: "durationMillis (pumps s i) \<le> millis clk - startTime (pumps s i) \<longleftrightarrow>
      sint (duration (pumps s i)) * 1000 \<le> uint (millis clk - startTime (pumps s i))"
    using durationMillis_small [OF assms(3,4)] by (simp add: word_le_def)
  show ?thesis
    using assms(1,2)
    by (auto simp: updatePump_def Let_def le digitalWrite_def)
qed

theorem auto_stop_short_runs_witness:
  "updatePump \<lparr>millis = 11000, micros = 11000000\<rparr> 0
     (startPump 0 (Val 50) 10 False \<lparr>millis = 1000, micros = 1000000\<rparr> (setup_sketch power_on)) =
   stopPump 0
     (startPump 0 (Val 50) 10 False \<lparr>millis = 1000, micros = 1000000\<rparr> (setup_sketch power_on)) \<and>
   isRunning (pumps (updatePump \<lparr>millis = 10999, micros = 10999000\<rparr> 0
     (startPump 0 (Val 50) 10 False \<lparr>millis = 1000, micros = 1000000\<rparr> (setup_sketch power_on))) 0)"
  using auto_stop_short_runs [of "startPump 0 (Val 50) 10 False \<lparr>millis = 1000, micros = 1000000\<rparr>
        (setup_sketch power_on)" 0 "\<lparr>millis = 11000, micros = 11000000\<rparr>"]
    auto_stop_short_runs [of "startPump 0 (Val 50) 10 False \<lparr>millis = 1000, micros = 1000000\<rparr>
        (setup_sketch power_on)" 0 "\<lparr>millis = 10999, micros = 10999000\<rparr>"]
  by (simp add: startPump_pumps)

section \<open>The front end refuses to start without an RPM\<close>

text \<open>
  Claim C10. For every pump id, when the value of the pump's RPM input parses to 0 or to
  NaN, \<open>startPump\<close> returns the controller with one more notification, the error
  \<open>RPM cannot be 0\<close>: no request is sent and \<open>pumpStates\<close> is unchanged. (When the page
  has no RPM input, time input or checkbox for the id, reading it throws before anything
  is done.)
\<close>

theorem frontend_start_needs_rpm:
  "(rpm_input doc pump = None \<or> time_input doc pump = None \<or>
      continuous_checkbox doc pump = None \<longrightarrow>
      PumpController_startPump pump doc response c = Inl TypeError) \<and>
   (rpm_input doc pump = Some rv \<and> time_input doc pump = Some tv \<and>
      continuous_checkbox doc pump = Some cb \<and>
      (parseFloat rv = Finite 0 \<or> parseFloat rv = NaN) \<longrightarrow>
      PumpController_startPump pump doc response c =
        Inr (c\<lparr>notifications :=
                 notifications c @ [(pump @ '' Pump: RPM cannot be 0'', ''error'')]\<rparr>))"
  by (auto simp: PumpController_startPump_def or_zero_def isNaN_def showNotification_def Let_def
      split: option.splits)

theorem frontend_start_needs_rpm_witness:
  "PumpController_startPump ''X''
     \<lparr>rpm_input = (\<lambda>p. Some ''0.0''), time_input = (\<lambda>p. Some ''10''),
      continuous_checkbox = (\<lambda>p. Some False), display_elements = (\<lambda>p. True),
      type_error_message = ''''\<rparr>
     (Result True '''')
     \<lparr>pumpStates = Map.empty, requests = [], notifications = [], display_updates = [],
      console_errors = []\<rparr> =
   Inr \<lparr>pumpStates = Map.empty, requests = [],
        notifications = [(''X Pump: RPM cannot be 0'', ''error'')], display_updates = [],
        console_errors = []\<rparr> \<and>
   PumpController_startPump ''X''
     \<lparr>rpm_input = (\<lambda>p. Some ''fast''), time_input = (\<lambda>p. Some ''10''),
      continuous_checkbox = (\<lambda>p. Some False), display_elements = (\<lambda>p. True),
      type_error_message = ''''\<rparr>
     (Result True '''')
     \<lparr>pumpStates = Map.empty, requests = [], notifications = [], display_updates = [],
      console_errors = []\<rparr> =
   Inr \<lparr>pumpStates = Map.empty, requests = [],
        notifications = [(''X Pump: RPM cannot be 0'', ''error'')], display_updates = [],
        console_errors = []\<rparr>"
proof -
  have z: "parseFloat ''0.0'' = Finite 0" and n: "parseFloat ''fast'' = NaN"
    by (simp_all add: parseFloat_def isspace_def isdigit_def skip_sign_def is_negative_def
        fraction_digits_def after_fraction_def exponent_def scale10_def digit_val_def
        startsWith_def)
  show ?thesis
    using frontend_start_needs_rpm [of
        "\<lparr>rpm_input = (\<lambda>p. Some ''0.0''), time_input = (\<lambda>p. Some ''10''),
          continuous_checkbox = (\<lambda>p. Some False), display_elements = (\<lambda>p. True),
          type_error_message = ''''\<rparr>" "''X''" "Result True ''''"
        "\<lparr>pumpStates = Map.empty, requests = [], notifications = [], display_updates = [],
          console_errors = []\<rparr>" "''0.0''" "''10''" False]
      frontend_start_needs_rpm [of
        "\<lparr>rpm_input = (\<lambda>p. Some ''fast''), time_input = (\<lambda>p. Some ''10''),
          continuous_checkbox = (\<lambda>p. Some False), display_elements = (\<lambda>p. True),
          type_error_message = ''''\<rparr>" "''X''" "Result True ''''"
        "\<lparr>pumpStates = Map.empty, requests = [], notifications = [], display_updates = [],
          console_errors = []\<rparr>" "''fast''" "''10''" False]
    by (simp add: z n)
qed

end
